theory Spec2Isabelle
  imports Complex_Main
begin

section \<open>Bounded retry with exponential backoff (\<open>withRetry\<close>)\<close>

text \<open>
  The retry utility of the generation pipeline:
  \<^verbatim>\<open>
  async function withRetry<T>(fn, options) {
    const { maxAttempts, backoffMs, maxBackoffMs = 30000, shouldRetry } = options;
    let lastError: unknown;
    for (let attempt = 1; attempt <= maxAttempts; attempt++) {
      try { return await fn(); }
      catch (error) {
        lastError = error;
        if (shouldRetry && !shouldRetry(error)) { throw error; }
        if (attempt < maxAttempts) {
          const delay = Math.min(backoffMs * Math.pow(2, attempt - 1), maxBackoffMs);
          await new Promise(resolve => setTimeout(resolve, delay));
        }
      }
    }
    throw lastError;
  }
  \<close>
  The wrapped operation has effects, so it is a function on a world state \<open>'s\<close> that
  either rejects (\<open>Inl\<close>) or resolves (\<open>Inr\<close>). Counts and milliseconds are integers
  (the source's numbers are integral at every call site). A thrown value is
  \<open>'e option\<close>: \<open>None\<close> is JavaScript's \<open>undefined\<close>, the initial value of
  \<open>lastError\<close>. A run records what an observer sees: the outcome, the errors caught
  (one per failed invocation, in order), the number of invocations of \<open>fn\<close>, the
  delays passed to \<open>setTimeout\<close> in order, and the world state left behind.
\<close>

record 'e RetryOptions =
  maxAttempts :: int
  backoffMs :: int
  maxBackoffMs :: "int option"
  shouldRetry :: "('e \<Rightarrow> bool) option"

record ('e, 'a, 's) RetryRun =
  outcome :: "'e option + 'a"
  errors :: "'e list"
  calls :: nat
  delays :: "int list"
  final :: 's

definition maxBackoffMs_or_default :: "('e, 'x) RetryOptions_scheme \<Rightarrow> int" where
  "maxBackoffMs_or_default options =
     (case maxBackoffMs options of None \<Rightarrow> 30000 | Some m \<Rightarrow> m)"

definition retry_delay :: "('e, 'x) RetryOptions_scheme \<Rightarrow> int \<Rightarrow> int" where
  "retry_delay options attempt =
     min (backoffMs options * 2 ^ nat (attempt - 1)) (maxBackoffMs_or_default options)"

definition rejects :: "('e, 'x) RetryOptions_scheme \<Rightarrow> 'e \<Rightarrow> bool" where
  "rejects options error =
     (case shouldRetry options of None \<Rightarrow> False | Some p \<Rightarrow> \<not> p error)"

function withRetry_loop ::
  "('s \<Rightarrow> ('e + 'a) \<times> 's) \<Rightarrow> 'e RetryOptions \<Rightarrow> int \<Rightarrow> 'e option \<Rightarrow> 's
     \<Rightarrow> ('e, 'a, 's) RetryRun" where
  "withRetry_loop fn options attempt lastError s =
     (if attempt \<le> maxAttempts options then
        (case fn s of
           (Inr v, s') \<Rightarrow>
             \<lparr>outcome = Inr v, errors = [], calls = 1, delays = [], final = s'\<rparr>
         | (Inl error, s') \<Rightarrow>
             if rejects options error then
               \<lparr>outcome = Inl (Some error), errors = [error], calls = 1, delays = [],
                final = s'\<rparr>
             else
               (let r = withRetry_loop fn options (attempt + 1) (Some error) s' in
                  r\<lparr>errors := error # errors r,
                    calls := Suc (calls r),
                    delays := (if attempt < maxAttempts options
                               then [retry_delay options attempt] else []) @ delays r\<rparr>))
      else \<lparr>outcome = Inl lastError, errors = [], calls = 0, delays = [], final = s\<rparr>)"
  by pat_completeness auto
termination
  by (relation "measure (\<lambda>(fn, options, attempt, lastError, s).
        nat (maxAttempts options + 1 - attempt))") auto

definition withRetry ::
  "('s \<Rightarrow> ('e + 'a) \<times> 's) \<Rightarrow> 'e RetryOptions \<Rightarrow> 's \<Rightarrow> ('e, 'a, 's) RetryRun" where
  "withRetry fn options s = withRetry_loop fn options 1 None s"

text \<open>
  The call site in \<open>generatePhase\<close>:
  \<^verbatim>\<open>withRetry(() => executePhaseGeneration(phase, context), { maxAttempts: 3, backoffMs: 1000 })\<close>
\<close>

definition generatePhase_options :: "'e RetryOptions" where
  "generatePhase_options =
     \<lparr>maxAttempts = 3, backoffMs = 1000, maxBackoffMs = None, shouldRetry = None\<rparr>"

subsection \<open>Unfolding the loop one iteration at a time\<close>

declare withRetry_loop.simps [simp del]

lemma loop_done:
  "\<not> attempt \<le> maxAttempts options \<Longrightarrow>
   withRetry_loop fn options attempt lastError s =
     \<lparr>outcome = Inl lastError, errors = [], calls = 0, delays = [], final = s\<rparr>"
  by (simp add: withRetry_loop.simps [of fn options attempt])

lemma loop_resolved:
  "attempt \<le> maxAttempts options \<Longrightarrow> fn s = (Inr v, s') \<Longrightarrow>
   withRetry_loop fn options attempt lastError s =
     \<lparr>outcome = Inr v, errors = [], calls = 1, delays = [], final = s'\<rparr>"
  by (simp add: withRetry_loop.simps [of fn options attempt])

lemma loop_rethrow:
  "attempt \<le> maxAttempts options \<Longrightarrow> fn s = (Inl error, s') \<Longrightarrow> rejects options error \<Longrightarrow>
   withRetry_loop fn options attempt lastError s =
     \<lparr>outcome = Inl (Some error), errors = [error], calls = 1, delays = [], final = s'\<rparr>"
  by (simp add: withRetry_loop.simps [of fn options attempt])

lemma loop_again:
  "attempt \<le> maxAttempts options \<Longrightarrow> fn s = (Inl error, s') \<Longrightarrow> \<not> rejects options error \<Longrightarrow>
   withRetry_loop fn options attempt lastError s =
     (withRetry_loop fn options (attempt + 1) (Some error) s')
       \<lparr>errors := error # errors (withRetry_loop fn options (attempt + 1) (Some error) s'),
        calls := Suc (calls (withRetry_loop fn options (attempt + 1) (Some error) s')),
        delays := (if attempt < maxAttempts options then [retry_delay options attempt] else [])
                   @ delays (withRetry_loop fn options (attempt + 1) (Some error) s')\<rparr>"
  by (simp add: withRetry_loop.simps [of fn options attempt] Let_def)

lemma loop_cases [case_names exhausted resolved rethrow again]:
  assumes "\<not> attempt \<le> maxAttempts options \<Longrightarrow> P"
    and "\<And>v s'. attempt \<le> maxAttempts options \<Longrightarrow> fn s = (Inr v, s') \<Longrightarrow> P"
    and "\<And>error s'. attempt \<le> maxAttempts options \<Longrightarrow> fn s = (Inl error, s') \<Longrightarrow>
           rejects options error \<Longrightarrow> P"
    and "\<And>error s'. attempt \<le> maxAttempts options \<Longrightarrow> fn s = (Inl error, s') \<Longrightarrow>
           \<not> rejects options error \<Longrightarrow> P"
  shows P
proof (cases "attempt \<le> maxAttempts options")
  case False
  then show ?thesis by (rule assms(1))
next
  case True
  obtain res s' where f: "fn s = (res, s')" by (cases "fn s")
  show ?thesis
  proof (cases res)
    case (Inr v)
    with True f show ?thesis by (auto intro: assms(2))
  next
    case (Inl error)
    with True f show ?thesis by (cases "rejects options error") (auto intro: assms(3,4))
  qed
qed

lemma loop_calls_le:
  "int (calls (withRetry_loop fn options attempt lastError s))
     \<le> max 0 (maxAttempts options + 1 - attempt)"
proof (induction fn options attempt lastError s rule: withRetry_loop.induct)
  case (1 fn options attempt lastError s)
  show ?case
  proof (cases rule: loop_cases [where attempt = attempt and options = options and fn = fn and s = s])
    case exhausted
    then show ?thesis by (simp add: loop_done)
  next
    case (resolved v s')
    then show ?thesis by (simp add: loop_resolved)
  next
    case (rethrow error s')
    then show ?thesis by (simp add: loop_rethrow)
  next
    case (again error s')
    from "1.IH" [OF again(1) again(2) [symmetric] refl again(3)] again
    show ?thesis by (simp add: loop_again)
  qed
qed

lemma loop_calls_errors:
  "calls (withRetry_loop fn options attempt lastError s) =
     length (errors (withRetry_loop fn options attempt lastError s)) +
     (case outcome (withRetry_loop fn options attempt lastError s) of Inl _ \<Rightarrow> 0 | Inr _ \<Rightarrow> 1)"
proof (induction fn options attempt lastError s rule: withRetry_loop.induct)
  case (1 fn options attempt lastError s)
  show ?case
  proof (cases rule: loop_cases [where attempt = attempt and options = options and fn = fn and s = s])
    case exhausted
    then show ?thesis by (simp add: loop_done)
  next
    case (resolved v s')
    then show ?thesis by (simp add: loop_resolved)
  next
    case (rethrow error s')
    then show ?thesis by (simp add: loop_rethrow)
  next
    case (again error s')
    from "1.IH" [OF again(1) again(2) [symmetric] refl again(3)] again
    show ?thesis by (simp add: loop_again)
  qed
qed

lemma loop_calls_pos:
  "attempt \<le> maxAttempts options \<Longrightarrow>
   0 < calls (withRetry_loop fn options attempt lastError s)"
  by (cases rule: loop_cases [where attempt = attempt and options = options and fn = fn and s = s])
     (simp_all add: loop_resolved loop_rethrow loop_again)

lemma map_upt_shift:
  "0 < n \<Longrightarrow> map f [0 ..< n] = f 0 # map (\<lambda>k. f (Suc k)) [0 ..< n - 1]"
  by (cases n) (simp_all add: upt_rec [of 0] map_Suc_upt [symmetric] del: upt_Suc)

lemma loop_delays:
  "delays (withRetry_loop fn options attempt lastError s) =
     map (\<lambda>k. retry_delay options (attempt + int k))
       [0 ..< calls (withRetry_loop fn options attempt lastError s) - 1]"
proof (induction fn options attempt lastError s rule: withRetry_loop.induct)
  case (1 fn options attempt lastError s)
  show ?case
  proof (cases rule: loop_cases [where attempt = attempt and options = options and fn = fn and s = s])
    case exhausted
    then show ?thesis by (simp add: loop_done)
  next
    case (resolved v s')
    then show ?thesis by (simp add: loop_resolved)
  next
    case (rethrow error s')
    then show ?thesis by (simp add: loop_rethrow)
  next
    case (again error s')
    let ?r = "withRetry_loop fn options (attempt + 1) (Some error) s'"
    have ih: "delays ?r = map (\<lambda>k. retry_delay options (attempt + 1 + int k)) [0 ..< calls ?r - 1]"
      using "1.IH" [OF again(1) again(2) [symmetric] refl again(3)] .
    show ?thesis
    proof (cases "attempt < maxAttempts options")
      case True
      then have pos: "0 < calls ?r" by (intro loop_calls_pos) simp
      have "map (\<lambda>k. retry_delay options (attempt + int k)) [0 ..< calls ?r] =
              retry_delay options attempt #
              map (\<lambda>k. retry_delay options (attempt + 1 + int k)) [0 ..< calls ?r - 1]"
        using map_upt_shift [OF pos, of "\<lambda>k. retry_delay options (attempt + int k)"]
        by (simp add: add.assoc)
      with again True ih show ?thesis by (simp add: loop_again)
    next
      case False
      with again(1) have "\<not> attempt + 1 \<le> maxAttempts options" by simp
      then have "?r = \<lparr>outcome = Inl (Some error), errors = [], calls = 0, delays = [], final = s'\<rparr>"
        by (rule loop_done)
      with again False show ?thesis by (simp add: loop_again)
    qed
  qed
qed

lemma loop_rejected:
  "x \<in> set (errors (withRetry_loop fn options attempt lastError s)) \<Longrightarrow> rejects options x \<Longrightarrow>
   outcome (withRetry_loop fn options attempt lastError s) = Inl (Some x) \<and>
   (\<exists>es. errors (withRetry_loop fn options attempt lastError s) = es @ [x] \<and>
         (\<forall>y\<in>set es. \<not> rejects options y))"
proof (induction fn options attempt lastError s rule: withRetry_loop.induct)
  case (1 fn options attempt lastError s)
  show ?case
  proof (cases rule: loop_cases [where attempt = attempt and options = options and fn = fn and s = s])
    case exhausted
    with "1.prems" show ?thesis by (simp add: loop_done)
  next
    case (resolved v s')
    with "1.prems" show ?thesis by (simp add: loop_resolved)
  next
    case (rethrow error s')
    with "1.prems" show ?thesis by (simp add: loop_rethrow)
  next
    case (again error s')
    let ?r = "withRetry_loop fn options (attempt + 1) (Some error) s'"
    from "1.prems" again have "x \<noteq> error" by auto
    with "1.prems"(1) again have mem: "x \<in> set (errors ?r)" by (simp add: loop_again)
    from "1.IH" [OF again(1) again(2) [symmetric] refl again(3) mem "1.prems"(2)]
    obtain es where out: "outcome ?r = Inl (Some x)" and es: "errors ?r = es @ [x]"
      and ok: "\<forall>y\<in>set es. \<not> rejects options y" by blast
    from es have "error # errors ?r = (error # es) @ [x]" by simp
    moreover from ok again(3) have "\<forall>y\<in>set (error # es). \<not> rejects options y" by simp
    ultimately have "\<exists>es'. error # errors ?r = es' @ [x] \<and> (\<forall>y\<in>set es'. \<not> rejects options y)"
      by blast
    with out again show ?thesis by (simp add: loop_again)
  qed
qed

text \<open>
  Claim C3. For every operation wrapped by \<open>withRetry\<close>: the operation is invoked at
  most \<open>maxAttempts\<close> times (at most 3 times with the options of the phase-generation
  call site); a delay is awaited before every retry and before nothing else, and the
  delay after failed attempt \<open>k + 1\<close> is \<open>min (backoffMs * 2 ^ k) cap\<close>, where \<open>cap\<close> is
  the \<open>maxBackoffMs\<close> of the options when they give one and 30000 when they do not; and an error for which \<open>shouldRetry\<close> returns
  false is rethrown at once: it is the outcome, it is the last error caught, no
  invocation follows it, and every error caught before it was retryable.
\<close>

theorem withRetry_bounded_backoff:
  "calls (withRetry fn options s) \<le> nat (maxAttempts options) \<and>
   length (delays (withRetry fn options s)) = calls (withRetry fn options s) - 1 \<and>
   (\<forall>k < length (delays (withRetry fn options s)).
      delays (withRetry fn options s) ! k =
        min (backoffMs options * 2 ^ k)
          (case maxBackoffMs options of None \<Rightarrow> 30000 | Some cap \<Rightarrow> cap)) \<and>
   (\<forall>e \<in> set (errors (withRetry fn options s)).
      \<forall>p. shouldRetry options = Some p \<and> \<not> p e \<longrightarrow>
        outcome (withRetry fn options s) = Inl (Some e) \<and>
        last (errors (withRetry fn options s)) = e \<and>
        calls (withRetry fn options s) = length (errors (withRetry fn options s)) \<and>
        (\<forall>y \<in> set (butlast (errors (withRetry fn options s))). p y)) \<and>
   calls (withRetry fn (generatePhase_options :: 'e RetryOptions) s) \<le> 3"
proof -
  let ?r = "withRetry fn options s"
  have c: "calls ?r \<le> nat (maxAttempts options)"
    using loop_calls_le [of fn options 1 None s] by (simp add: withRetry_def)
  have d: "delays ?r = map (\<lambda>k. retry_delay options (1 + int k)) [0 ..< calls ?r - 1]"
    unfolding withRetry_def by (rule loop_delays)
  then have len: "length (delays ?r) = calls ?r - 1" by simp
  have nth: "\<forall>k < length (delays ?r).
      delays ?r ! k = min (backoffMs options * 2 ^ k)
        (case maxBackoffMs options of None \<Rightarrow> 30000 | Some cap \<Rightarrow> cap)"
  proof (intro allI impI)
    fix k assume "k < length (delays ?r)"
    with len have "k < calls ?r - 1" by simp
    then have "delays ?r ! k = retry_delay options (1 + int k)"
      by (subst d) simp
    then show "delays ?r ! k = min (backoffMs options * 2 ^ k)
        (case maxBackoffMs options of None \<Rightarrow> 30000 | Some cap \<Rightarrow> cap)"
      by (simp add: retry_delay_def maxBackoffMs_or_default_def)
  qed
  have rej: "\<forall>e \<in> set (errors ?r). rejects options e \<longrightarrow>
      outcome ?r = Inl (Some e) \<and> last (errors ?r) = e \<and> calls ?r = length (errors ?r) \<and>
      (\<forall>y \<in> set (butlast (errors ?r)). \<not> rejects options y)"
  proof (intro ballI impI)
    fix e assume e: "e \<in> set (errors ?r)" "rejects options e"
    from loop_rejected [OF e [unfolded withRetry_def]]
    obtain es where out: "outcome ?r = Inl (Some e)" and es: "errors ?r = es @ [e]"
      and ok: "\<forall>y\<in>set es. \<not> rejects options y"
      unfolding withRetry_def by blast
    have "calls ?r = length (errors ?r)"
      using loop_calls_errors [of fn options 1 None s] out by (simp add: withRetry_def)
    with out es ok
    show "outcome ?r = Inl (Some e) \<and> last (errors ?r) = e \<and> calls ?r = length (errors ?r) \<and>
      (\<forall>y \<in> set (butlast (errors ?r)). \<not> rejects options y)" by simp
  qed
  have g: "calls (withRetry fn (generatePhase_options :: 'e RetryOptions) s) \<le> 3"
    using loop_calls_le [of fn "generatePhase_options :: 'e RetryOptions" 1 None s]
    by (simp add: withRetry_def generatePhase_options_def)
  have rej': "\<forall>e \<in> set (errors ?r). \<forall>p. shouldRetry options = Some p \<and> \<not> p e \<longrightarrow>
      outcome ?r = Inl (Some e) \<and> last (errors ?r) = e \<and> calls ?r = length (errors ?r) \<and>
      (\<forall>y \<in> set (butlast (errors ?r)). p y)"
  proof (intro ballI allI impI)
    fix e p assume e: "e \<in> set (errors ?r)" and p: "shouldRetry options = Some p \<and> \<not> p e"
    then have "rejects options e" by (simp add: rejects_def)
    with rej e have "outcome ?r = Inl (Some e) \<and> last (errors ?r) = e \<and>
        calls ?r = length (errors ?r) \<and> (\<forall>y \<in> set (butlast (errors ?r)). \<not> rejects options y)"
      by blast
    with p show "outcome ?r = Inl (Some e) \<and> last (errors ?r) = e \<and>
        calls ?r = length (errors ?r) \<and> (\<forall>y \<in> set (butlast (errors ?r)). p y)"
      by (simp add: rejects_def)
  qed
  from c len nth rej' g show ?thesis by blast
qed

theorem withRetry_bounded_backoff_witness:
  "delays (withRetry (\<lambda>n::nat. (if n < 5 then Inl ''timeout'' else Inr n, Suc n))
      \<lparr>maxAttempts = 4, backoffMs = 1000, maxBackoffMs = Some 1500, shouldRetry = None\<rparr> 0) =
     [1000, 1500, 1500] \<and>
   delays (withRetry (\<lambda>n::nat. (if n < 5 then Inl ''timeout'' else Inr n, Suc n))
      \<lparr>maxAttempts = 4, backoffMs = 10000, maxBackoffMs = None, shouldRetry = None\<rparr> 0) =
     [10000, 20000, 30000] \<and>
   calls (withRetry (\<lambda>n::nat. (if n < 5 then Inl ''timeout'' else Inr n, Suc n))
      \<lparr>maxAttempts = 3, backoffMs = 1000, maxBackoffMs = None, shouldRetry = None\<rparr> 0) = 3 \<and>
   length (delays (withRetry (\<lambda>n::nat. (if n < 5 then Inl ''timeout'' else Inr n, Suc n))
      \<lparr>maxAttempts = 3, backoffMs = 1000, maxBackoffMs = None, shouldRetry = None\<rparr> 0)) = 2 \<and>
   delays (withRetry (\<lambda>n::nat. (if n < 5 then Inl ''timeout'' else Inr n, Suc n))
      \<lparr>maxAttempts = 3, backoffMs = 1000, maxBackoffMs = None, shouldRetry = None\<rparr> 0) ! 1 = 2000 \<and>
   ''bad request'' \<in> set (errors (withRetry (\<lambda>n::nat. (Inl ''bad request'' :: string + nat, Suc n))
      \<lparr>maxAttempts = 3, backoffMs = 1000, maxBackoffMs = None,
       shouldRetry = Some (\<lambda>e. e = ''timeout'')\<rparr> 0)) \<and>
   \<not> (\<lambda>e. e = ''timeout'') ''bad request'' \<and>
   outcome (withRetry (\<lambda>n::nat. (Inl ''bad request'' :: string + nat, Suc n))
      \<lparr>maxAttempts = 3, backoffMs = 1000, maxBackoffMs = None,
       shouldRetry = Some (\<lambda>e. e = ''timeout'')\<rparr> 0) = Inl (Some ''bad request'') \<and>
   calls (withRetry (\<lambda>n::nat. (Inl ''bad request'' :: string + nat, Suc n))
      \<lparr>maxAttempts = 3, backoffMs = 1000, maxBackoffMs = None,
       shouldRetry = Some (\<lambda>e. e = ''timeout'')\<rparr> 0) = 1"
  using withRetry_bounded_backoff
          [of "\<lambda>n::nat. (if n < 5 then Inl ''timeout'' else Inr n, Suc n)"
              "\<lparr>maxAttempts = 4, backoffMs = 1000, maxBackoffMs = Some 1500, shouldRetry = None\<rparr>" 0]
        withRetry_bounded_backoff
          [of "\<lambda>n::nat. (if n < 5 then Inl ''timeout'' else Inr n, Suc n)"
              "\<lparr>maxAttempts = 4, backoffMs = 10000, maxBackoffMs = None, shouldRetry = None\<rparr>" 0]
        withRetry_bounded_backoff
          [of "\<lambda>n::nat. (if n < 5 then Inl ''timeout'' else Inr n, Suc n)"
              "\<lparr>maxAttempts = 3, backoffMs = 1000, maxBackoffMs = None, shouldRetry = None\<rparr>" 0]
        withRetry_bounded_backoff
          [of "\<lambda>n::nat. (Inl ''bad request'' :: string + nat, Suc n)"
              "\<lparr>maxAttempts = 3, backoffMs = 1000, maxBackoffMs = None,
                shouldRetry = Some (\<lambda>e. e = ''timeout'')\<rparr>" 0]
  by (simp add: withRetry_def withRetry_loop.simps rejects_def retry_delay_def
        maxBackoffMs_or_default_def)

section \<open>The generation state machine (\<open>GenerationAgent\<close>)\<close>

text \<open>
  The durable object that owns one session's state:
  \<^verbatim>\<open>
  private async loadState() {
    if (this.state) return this.state;
    const stored = await this.ctx.storage.get('state');
    if (stored) { this.state = stored; return this.state; }
    this.state = { sessionId: crypto.randomUUID(), status: 'idle', currentPhase: 0,
                   totalPhases: 0, error: null, createdAt: Date.now(), updatedAt: Date.now() };
    await this.ctx.storage.put('state', this.state);
    return this.state;
  }
  private async updateState(updates) {
    const current = await this.loadState();
    this.state = { ...current, ...updates, updatedAt: Date.now() };
    await this.ctx.storage.put('state', this.state);
    return this.state;
  }
  async advancePhase() {
    const state = await this.loadState();
    const newPhase = state.currentPhase + 1;
    return this.updateState({
      status: newPhase >= state.totalPhases ? 'completed' : 'generating',
      currentPhase: newPhase });
  }
  \<close>
  The agent is its in-memory copy (\<open>state\<close>, \<open>None\<close> for \<open>null\<close>) and the stored copy
  (\<open>storage\<close>). \<open>Date.now()\<close> and \<open>crypto.randomUUID()\<close> are read from an ambient
  record, one reading per operation. A partial update is the function that overwrites
  the fields it lists; \<open>updateState\<close> then sets \<open>updatedAt\<close>. Every method returns the
  state it resolves to and the agent it leaves behind.
\<close>

datatype Status = idle | bootstrapping | generating | completed | failed

record GenerationState =
  sessionId :: string
  status :: Status
  currentPhase :: int
  totalPhases :: int
  error :: "string option"
  createdAt :: int
  updatedAt :: int

record GenerationAgent =
  state :: "GenerationState option"
  storage :: "GenerationState option"

record Ambient =
  now :: int
  randomUUID :: string

definition loadState :: "Ambient \<Rightarrow> GenerationAgent \<Rightarrow> GenerationState \<times> GenerationAgent" where
  "loadState env this =
     (case state this of
        Some st \<Rightarrow> (st, this)
      | None \<Rightarrow>
          (case storage this of
             Some stored \<Rightarrow> (stored, this\<lparr>state := Some stored\<rparr>)
           | None \<Rightarrow>
               (let fresh = \<lparr>sessionId = randomUUID env, status = idle, currentPhase = 0,
                              totalPhases = 0, error = None, createdAt = now env,
                              updatedAt = now env\<rparr>
                in (fresh, this\<lparr>state := Some fresh, storage := Some fresh\<rparr>))))"

definition updateState ::
  "Ambient \<Rightarrow> (GenerationState \<Rightarrow> GenerationState) \<Rightarrow> GenerationAgent
     \<Rightarrow> GenerationState \<times> GenerationAgent" where
  "updateState env updates this =
     (let (current, this1) = loadState env this;
          merged = (updates current)\<lparr>updatedAt := now env\<rparr>
      in (merged, this1\<lparr>state := Some merged, storage := Some merged\<rparr>))"

definition startGeneration ::
  "Ambient \<Rightarrow> int \<Rightarrow> GenerationAgent \<Rightarrow> GenerationState \<times> GenerationAgent" where
  "startGeneration env n this =
     updateState env
       (\<lambda>c. c\<lparr>status := bootstrapping, currentPhase := 0, totalPhases := n, error := None\<rparr>)
       this"

definition advancePhase :: "Ambient \<Rightarrow> GenerationAgent \<Rightarrow> GenerationState \<times> GenerationAgent" where
  "advancePhase env this =
     (let (st, this1) = loadState env this;
          newPhase = currentPhase st + 1
      in updateState env
           (\<lambda>c. c\<lparr>status := (if newPhase \<ge> totalPhases st then completed else generating),
                  currentPhase := newPhase\<rparr>)
           this1)"

definition failGeneration ::
  "Ambient \<Rightarrow> string \<Rightarrow> GenerationAgent \<Rightarrow> GenerationState \<times> GenerationAgent" where
  "failGeneration env msg this =
     updateState env (\<lambda>c. c\<lparr>status := failed, error := Some msg\<rparr>) this"

definition getState :: "Ambient \<Rightarrow> GenerationAgent \<Rightarrow> GenerationState \<times> GenerationAgent" where
  "getState env this = loadState env this"

text \<open>
  The agents that the public methods can produce from a new object, where the process
  may also lose its in-memory copy between two calls.
\<close>

inductive reachable :: "GenerationAgent \<Rightarrow> bool" where
  created: "reachable \<lparr>state = None, storage = None\<rparr>"
| started: "reachable this \<Longrightarrow> reachable (snd (startGeneration env n this))"
| advanced: "reachable this \<Longrightarrow> reachable (snd (advancePhase env this))"
| failing: "reachable this \<Longrightarrow> reachable (snd (failGeneration env msg this))"
| read: "reachable this \<Longrightarrow> reachable (snd (getState env this))"
| evicted: "reachable this \<Longrightarrow> reachable (this\<lparr>state := None\<rparr>)"

text \<open>
  The invariant behind the result: the in-memory copy is the stored one, and a session
  is \<open>completed\<close> only with its cursor at or past \<open>totalPhases\<close>.
\<close>

definition consistent :: "GenerationAgent \<Rightarrow> bool" where
  "consistent this \<longleftrightarrow>
     (case state this of None \<Rightarrow> True | Some st \<Rightarrow> storage this = Some st) \<and>
     (case storage this of None \<Rightarrow> True
      | Some st \<Rightarrow> status st = completed \<longrightarrow> totalPhases st \<le> currentPhase st)"

lemma loadState_consistent: "consistent this \<Longrightarrow> consistent (snd (loadState env this))"
  by (auto simp: consistent_def loadState_def Let_def split: option.splits)

lemma loadState_idem: "loadState env' (snd (loadState env this)) = (fst (loadState env this), snd (loadState env this))"
  by (auto simp: loadState_def Let_def split: option.splits)

lemma loadState_completed:
  "consistent this \<Longrightarrow> status (fst (loadState env this)) = completed \<Longrightarrow>
   totalPhases (fst (loadState env this)) \<le> currentPhase (fst (loadState env this))"
  by (auto simp: consistent_def loadState_def Let_def split: option.splits)

lemma updateState_consistent:
  assumes "consistent this"
    and "status (updates (fst (loadState env this))) = completed \<Longrightarrow>
         totalPhases (updates (fst (loadState env this))) \<le> currentPhase (updates (fst (loadState env this)))"
  shows "consistent (snd (updateState env updates this))"
  using assms by (auto simp: consistent_def updateState_def Let_def split: prod.splits option.splits)

lemma advancePhase_eq:
  "advancePhase env this =
     (let st = fst (loadState env this);
          st' = st\<lparr>status := (if currentPhase st + 1 \<ge> totalPhases st then completed else generating),
                  currentPhase := currentPhase st + 1, updatedAt := now env\<rparr>
      in (st', snd (loadState env this)\<lparr>state := Some st', storage := Some st'\<rparr>))"
proof -
  obtain st this1 where l: "loadState env this = (st, this1)" by (cases "loadState env this")
  have "loadState env this1 = (st, this1)" using loadState_idem [of env env this] l by simp
  with l show ?thesis by (simp add: advancePhase_def updateState_def Let_def)
qed

lemma reachable_consistent: "reachable this \<Longrightarrow> consistent this"
proof (induction rule: reachable.induct)
  case created
  show ?case by (simp add: consistent_def)
next
  case (started this env n)
  then show ?case unfolding startGeneration_def by (intro updateState_consistent) simp_all
next
  case (advanced this env)
  then show ?case
    by (auto simp: advancePhase_eq Let_def consistent_def loadState_def split: option.splits)
next
  case (failing this env msg)
  then show ?case unfolding failGeneration_def by (intro updateState_consistent) simp_all
next
  case (read this env)
  from read.IH show ?case unfolding getState_def by (rule loadState_consistent)
next
  case (evicted this)
  then show ?case by (auto simp: consistent_def split: option.splits)
qed

lemma loadState_ambient:
  "status (fst (loadState env this)) \<noteq> idle \<Longrightarrow>
   fst (loadState env' this) = fst (loadState env this)"
  by (auto simp: loadState_def Let_def split: option.splits)

text \<open>
  Claim C2, as amended. \<open>advancePhase\<close> has no guard on the status. On a session
  reached through the agent's methods whose status is \<open>completed\<close>, a further
  \<open>advancePhase\<close> leaves the status \<open>completed\<close>; on a session whose status is
  \<open>failed\<close> it replaces \<open>failed\<close> (by \<open>generating\<close> or \<open>completed\<close>); in both cases the call
  is not a no-op: it adds one to \<open>currentPhase\<close> and sets \<open>updatedAt\<close>.
\<close>

theorem advancePhase_terminal:
  assumes "reachable this"
  shows "(status (fst (getState env this)) = completed \<longrightarrow>
            status (fst (advancePhase env' this)) = completed) \<and>
         (status (fst (getState env this)) = failed \<longrightarrow>
            status (fst (advancePhase env' this)) \<noteq> failed \<and>
            status (fst (advancePhase env' this)) =
              (if totalPhases (fst (getState env' this)) \<le> currentPhase (fst (getState env' this)) + 1
               then completed else generating)) \<and>
         currentPhase (fst (advancePhase env' this)) = currentPhase (fst (getState env' this)) + 1 \<and>
         updatedAt (fst (advancePhase env' this)) = now env'"
proof -
  from assms have c: "consistent this" by (rule reachable_consistent)
  let ?st = "fst (loadState env' this)"
  have adv: "fst (advancePhase env' this) =
      ?st\<lparr>status := (if currentPhase ?st + 1 \<ge> totalPhases ?st then completed else generating),
          currentPhase := currentPhase ?st + 1, updatedAt := now env'\<rparr>"
    by (simp add: advancePhase_eq Let_def)
  have "status (fst (advancePhase env' this)) = completed"
    if "status (fst (getState env this)) = completed"
  proof -
    from that have "status (fst (loadState env this)) \<noteq> idle" by (simp add: getState_def)
    then have "?st = fst (loadState env this)" by (rule loadState_ambient)
    with that have "status ?st = completed" by (simp add: getState_def)
    with c have "totalPhases ?st \<le> currentPhase ?st" by (rule loadState_completed)
    with adv show ?thesis by simp
  qed
  moreover have "status (fst (advancePhase env' this)) \<noteq> failed" using adv by simp
  moreover have "status (fst (advancePhase env' this)) =
      (if totalPhases (fst (getState env' this)) \<le> currentPhase (fst (getState env' this)) + 1
       then completed else generating)"
    using adv by (simp add: getState_def)
  moreover have "currentPhase (fst (advancePhase env' this)) = currentPhase (fst (getState env' this)) + 1"
    using adv by (simp add: getState_def)
  moreover have "updatedAt (fst (advancePhase env' this)) = now env'" using adv by simp
  ultimately show ?thesis by blast
qed

text \<open>
  The claim as stated fails: a failed session at phase 0 of 3 is moved to
  \<open>generating\<close> at phase 1.
\<close>

theorem advancePhase_terminal_counterexample:
  "status (fst (getState \<lparr>now = 3, randomUUID = ''u''\<rparr>
      \<lparr>state = Some \<lparr>sessionId = ''s1'', status = failed, currentPhase = 0, totalPhases = 3,
         error = Some ''boom'', createdAt = 1, updatedAt = 2\<rparr>,
       storage = Some \<lparr>sessionId = ''s1'', status = failed, currentPhase = 0, totalPhases = 3,
         error = Some ''boom'', createdAt = 1, updatedAt = 2\<rparr>\<rparr>)) = failed \<and>
   fst (advancePhase \<lparr>now = 3, randomUUID = ''u''\<rparr>
      \<lparr>state = Some \<lparr>sessionId = ''s1'', status = failed, currentPhase = 0, totalPhases = 3,
         error = Some ''boom'', createdAt = 1, updatedAt = 2\<rparr>,
       storage = Some \<lparr>sessionId = ''s1'', status = failed, currentPhase = 0, totalPhases = 3,
         error = Some ''boom'', createdAt = 1, updatedAt = 2\<rparr>\<rparr>) =
     \<lparr>sessionId = ''s1'', status = generating, currentPhase = 1, totalPhases = 3,
      error = Some ''boom'', createdAt = 1, updatedAt = 3\<rparr>"
  by (simp add: getState_def advancePhase_def updateState_def loadState_def Let_def)

lemma session_after_one_phase:
  "snd (advancePhase \<lparr>now = 2, randomUUID = ''u''\<rparr>
     (snd (startGeneration \<lparr>now = 1, randomUUID = ''u''\<rparr> 1 \<lparr>state = None, storage = None\<rparr>))) =
   \<lparr>state = Some \<lparr>sessionId = ''u'', status = completed, currentPhase = 1, totalPhases = 1,
        error = None, createdAt = 1, updatedAt = 2\<rparr>,
    storage = Some \<lparr>sessionId = ''u'', status = completed, currentPhase = 1, totalPhases = 1,
        error = None, createdAt = 1, updatedAt = 2\<rparr>\<rparr>"
  by (simp add: startGeneration_def advancePhase_def updateState_def loadState_def Let_def)

lemma session_after_failure:
  "snd (failGeneration \<lparr>now = 2, randomUUID = ''u''\<rparr> ''boom''
     (snd (startGeneration \<lparr>now = 1, randomUUID = ''u''\<rparr> 3 \<lparr>state = None, storage = None\<rparr>))) =
   \<lparr>state = Some \<lparr>sessionId = ''u'', status = failed, currentPhase = 0, totalPhases = 3,
        error = Some ''boom'', createdAt = 1, updatedAt = 2\<rparr>,
    storage = Some \<lparr>sessionId = ''u'', status = failed, currentPhase = 0, totalPhases = 3,
        error = Some ''boom'', createdAt = 1, updatedAt = 2\<rparr>\<rparr>"
  by (simp add: startGeneration_def failGeneration_def updateState_def loadState_def Let_def)

theorem advancePhase_terminal_witness:
  "reachable \<lparr>state = Some \<lparr>sessionId = ''u'', status = completed, currentPhase = 1, totalPhases = 1,
        error = None, createdAt = 1, updatedAt = 2\<rparr>,
    storage = Some \<lparr>sessionId = ''u'', status = completed, currentPhase = 1, totalPhases = 1,
        error = None, createdAt = 1, updatedAt = 2\<rparr>\<rparr> \<and>
   status (fst (getState \<lparr>now = 3, randomUUID = ''v''\<rparr>
     \<lparr>state = Some \<lparr>sessionId = ''u'', status = completed, currentPhase = 1, totalPhases = 1,
        error = None, createdAt = 1, updatedAt = 2\<rparr>,
    storage = Some \<lparr>sessionId = ''u'', status = completed, currentPhase = 1, totalPhases = 1,
        error = None, createdAt = 1, updatedAt = 2\<rparr>\<rparr>)) = completed \<and>
   status (fst (advancePhase \<lparr>now = 3, randomUUID = ''v''\<rparr>
     \<lparr>state = Some \<lparr>sessionId = ''u'', status = completed, currentPhase = 1, totalPhases = 1,
        error = None, createdAt = 1, updatedAt = 2\<rparr>,
    storage = Some \<lparr>sessionId = ''u'', status = completed, currentPhase = 1, totalPhases = 1,
        error = None, createdAt = 1, updatedAt = 2\<rparr>\<rparr>)) = completed \<and>
   currentPhase (fst (advancePhase \<lparr>now = 3, randomUUID = ''v''\<rparr>
     \<lparr>state = Some \<lparr>sessionId = ''u'', status = completed, currentPhase = 1, totalPhases = 1,
        error = None, createdAt = 1, updatedAt = 2\<rparr>,
    storage = Some \<lparr>sessionId = ''u'', status = completed, currentPhase = 1, totalPhases = 1,
        error = None, createdAt = 1, updatedAt = 2\<rparr>\<rparr>)) = 2 \<and>
   reachable \<lparr>state = Some \<lparr>sessionId = ''u'', status = failed, currentPhase = 0, totalPhases = 3,
        error = Some ''boom'', createdAt = 1, updatedAt = 2\<rparr>,
    storage = Some \<lparr>sessionId = ''u'', status = failed, currentPhase = 0, totalPhases = 3,
        error = Some ''boom'', createdAt = 1, updatedAt = 2\<rparr>\<rparr> \<and>
   status (fst (getState \<lparr>now = 3, randomUUID = ''v''\<rparr>
     \<lparr>state = Some \<lparr>sessionId = ''u'', status = failed, currentPhase = 0, totalPhases = 3,
        error = Some ''boom'', createdAt = 1, updatedAt = 2\<rparr>,
    storage = Some \<lparr>sessionId = ''u'', status = failed, currentPhase = 0, totalPhases = 3,
        error = Some ''boom'', createdAt = 1, updatedAt = 2\<rparr>\<rparr>)) = failed \<and>
   status (fst (advancePhase \<lparr>now = 3, randomUUID = ''v''\<rparr>
     \<lparr>state = Some \<lparr>sessionId = ''u'', status = failed, currentPhase = 0, totalPhases = 3,
        error = Some ''boom'', createdAt = 1, updatedAt = 2\<rparr>,
    storage = Some \<lparr>sessionId = ''u'', status = failed, currentPhase = 0, totalPhases = 3,
        error = Some ''boom'', createdAt = 1, updatedAt = 2\<rparr>\<rparr>)) = generating"
proof -
  let ?a = "\<lparr>state = Some \<lparr>sessionId = ''u'', status = completed, currentPhase = 1, totalPhases = 1,
        error = None, createdAt = 1, updatedAt = 2\<rparr>,
    storage = Some \<lparr>sessionId = ''u'', status = completed, currentPhase = 1, totalPhases = 1,
        error = None, createdAt = 1, updatedAt = 2\<rparr>\<rparr>"
  have r: "reachable ?a"
    using reachable.advanced [OF reachable.started [OF reachable.created,
            of "\<lparr>now = 1, randomUUID = ''u''\<rparr>" 1], of "\<lparr>now = 2, randomUUID = ''u''\<rparr>"]
    by (simp only: session_after_one_phase)
  have g: "status (fst (getState \<lparr>now = 3, randomUUID = ''v''\<rparr> ?a)) = completed"
    by (simp add: getState_def loadState_def)
  let ?b = "\<lparr>state = Some \<lparr>sessionId = ''u'', status = failed, currentPhase = 0, totalPhases = 3,
        error = Some ''boom'', createdAt = 1, updatedAt = 2\<rparr>,
    storage = Some \<lparr>sessionId = ''u'', status = failed, currentPhase = 0, totalPhases = 3,
        error = Some ''boom'', createdAt = 1, updatedAt = 2\<rparr>\<rparr>"
  have r': "reachable ?b"
    using reachable.failing [OF reachable.started [OF reachable.created,
            of "\<lparr>now = 1, randomUUID = ''u''\<rparr>" 3], of "\<lparr>now = 2, randomUUID = ''u''\<rparr>" "''boom''"]
    by (simp only: session_after_failure)
  have g': "status (fst (getState \<lparr>now = 3, randomUUID = ''v''\<rparr> ?b)) = failed"
    by (simp add: getState_def loadState_def)
  from r g r' g'
    advancePhase_terminal [OF r, of "\<lparr>now = 3, randomUUID = ''v''\<rparr>" "\<lparr>now = 3, randomUUID = ''v''\<rparr>"]
    advancePhase_terminal [OF r', of "\<lparr>now = 3, randomUUID = ''v''\<rparr>" "\<lparr>now = 3, randomUUID = ''v''\<rparr>"]
  show ?thesis by (simp add: getState_def loadState_def)
qed

section \<open>Provider and credential resolution\<close>

text \<open>
  From the provider configuration guide, the code of \<open>worker/agents/inferutils/core.ts\<close>:
  \<^verbatim>\<open>
  async function getApiKey(provider: string, env: Env, userId: string): Promise<string> {
      const providerKeyString = provider.toUpperCase().replaceAll('-', '_');
      const envKey = `${providerKeyString}_API_KEY` as keyof Env;
      let apiKey = env[envKey] as string;
      // Fallback to AI Gateway token if no direct key
      if (!isValidApiKey(apiKey)) { apiKey = env.CLOUDFLARE_AI_GATEWAY_TOKEN; }
      return apiKey;
  }
  async function getConfigurationForModel(model: AIModels, env: Env, userId: string) {
      const baseURL = await buildGatewayUrl(env);
      const provider = model.split('/')[0];
      const apiKey = await getApiKey(provider, env, userId);
      return { baseURL, apiKey };
  }
  \<close>
  Strings are lists of 8-bit characters; \<open>toUpperCase\<close> changes the letters a to z
  and nothing else. The environment is a lookup from variable names to values, \<open>None\<close>
  for a variable that is not set (\<open>undefined\<close>). \<open>split\<close> is JavaScript's
  \<open>String.prototype.split\<close> with a one-character separator, on a string given as the
  list of its characters or code units; it never returns an empty
  array, so reading element 0 cannot fail, and the model keeps the failing branch
  (calling a method on \<open>undefined\<close>) only for completeness.
\<close>

definition toUpperCase_char :: "char \<Rightarrow> char" where
  "toUpperCase_char c =
     (case map_of (zip ''abcdefghijklmnopqrstuvwxyz'' ''ABCDEFGHIJKLMNOPQRSTUVWXYZ'') c of
        Some u \<Rightarrow> u | None \<Rightarrow> c)"

definition toUpperCase :: "string \<Rightarrow> string" where
  "toUpperCase s = map toUpperCase_char s"

definition replaceAll :: "char \<Rightarrow> char \<Rightarrow> string \<Rightarrow> string" where
  "replaceAll a b s = map (\<lambda>c. if c = a then b else c) s"

fun split :: "'a \<Rightarrow> 'a list \<Rightarrow> 'a list list" where
  "split sep [] = [[]]"
| "split sep (c # cs) =
     (if c = sep then [] # split sep cs
      else (case split sep cs of [] \<Rightarrow> [[c]] | w # ws \<Rightarrow> (c # w) # ws))"





definition envKeyFor :: "string \<Rightarrow> string" where
  "envKeyFor provider = replaceAll (CHR ''-'') (CHR ''_'') (toUpperCase provider) @ ''_API_KEY''"




lemma split_nonempty: "split sep s \<noteq> []"
  by (induction s) (auto split: list.splits)





text \<open>
  The comment on the \<open>grok/\<close> members of \<open>AIModels\<close> says that they use
  \<open>XAI_API_KEY\<close>; the code above reads \<open>GROK_API_KEY\<close> for them, as for any provider.
\<close>

lemma grok_env_key:
  "split (CHR ''/'') ''grok/grok-code-fast-1'' = [''grok'', ''grok-code-fast-1''] \<and>
   envKeyFor ''grok'' = ''GROK_API_KEY''"
  by (simp add: envKeyFor_def replaceAll_def toUpperCase_def toUpperCase_char_def)




section \<open>Template selection (\<open>getTemplateForQuery\<close>)\<close>

text \<open>
  \<open>getTemplateForQuery\<close> of \<open>worker/agents/index.ts\<close> calls three collaborators in
  turn: \<open>SandboxSdkClient.listTemplates()\<close>, the inference call \<open>selectTemplate(...)\<close>
  and \<open>BaseSandboxService.getTemplateDetails(name)\<close>. Each either throws or returns,
  so each is a sum here, and the function returns its own result together with the
  trace of what it did: the collaborators it called and the log entries it wrote, in
  order. A thrown value is an \<open>Error\<close> with its message or some other value;
  \<open>listTemplates\<close> may also resolve to nothing (\<open>None\<close>), which the code tests first.
\<close>

datatype Thrown = Error string | NonError

record ServiceResponse =
  success :: bool
  error_message :: "string option"

record TemplateInfo =
  name :: string

record TemplateListResponse = ServiceResponse +
  templates :: "TemplateInfo list"

record 'd TemplateDetailsResponse = ServiceResponse +
  templateDetails :: "'d option"

record TemplateSelection =
  selectedTemplateName :: "string option"
  reasoning :: string

datatype Effect =
    ListTemplates
  | SelectTemplate "TemplateInfo list"
  | GetTemplateDetails string
  | LogError string
  | LogInfo string

definition message_or_unknown :: "Thrown \<Rightarrow> string" where
  "message_or_unknown e = (case e of Error m \<Rightarrow> m | NonError \<Rightarrow> ''Unknown error'')"

definition or_unknown :: "string option \<Rightarrow> string" where
  "or_unknown m = (case m of None \<Rightarrow> ''Unknown error'' | Some x \<Rightarrow> if x = [] then ''Unknown error'' else x)"

definition getTemplateForQuery ::
  "(Thrown + TemplateListResponse option)
     \<Rightarrow> (string \<Rightarrow> TemplateInfo list \<Rightarrow> 'i \<Rightarrow> Thrown + TemplateSelection)
     \<Rightarrow> (string \<Rightarrow> Thrown + 'd TemplateDetailsResponse)
     \<Rightarrow> string \<Rightarrow> 'i
     \<Rightarrow> (Thrown + 'd \<times> TemplateSelection) \<times> Effect list" where
  "getTemplateForQuery listTemplates selectTemplate getTemplateDetails query images =
     (case listTemplates of
        Inl e \<Rightarrow>
          (Inl (Error (''Template service unavailable: '' @ message_or_unknown e)),
           [ListTemplates, LogError ''Failed to call listTemplates''])
      | Inr None \<Rightarrow>
          (Inl (Error (''Failed to fetch templates from template service: '' @ or_unknown None)),
           [ListTemplates, LogError ''Template list request failed''])
      | Inr (Some templatesResponse) \<Rightarrow>
          if \<not> success templatesResponse then
            (Inl (Error (''Failed to fetch templates from template service: ''
                          @ or_unknown (error_message templatesResponse))),
             [ListTemplates, LogError ''Template list request failed''])
          else if length (templates templatesResponse) = 0 then
            (Inl (Error ''No templates available in the template catalog''), [ListTemplates])
          else
            (case selectTemplate query (templates templatesResponse) images of
               Inl e \<Rightarrow>
                 (Inl e,
                  [ListTemplates, SelectTemplate (templates templatesResponse),
                   LogError ''Template selection failed''])
             | Inr analyzeQueryResponse \<Rightarrow>
                 (let done = [ListTemplates, SelectTemplate (templates templatesResponse),
                              LogInfo ''Selected template'']
                  in case selectedTemplateName analyzeQueryResponse of
                       None \<Rightarrow>
                         (Inl (Error ''No suitable template found for your request. Please try rephrasing your query.''),
                          done @ [LogError ''No suitable template found for code generation''])
                     | Some selectedName \<Rightarrow>
                         if selectedName = [] then
                           (Inl (Error ''No suitable template found for your request. Please try rephrasing your query.''),
                            done @ [LogError ''No suitable template found for code generation''])
                         else
                           (case find (\<lambda>template. name template = selectedName)
                                   (templates templatesResponse) of
                              None \<Rightarrow>
                                (Inl (Error (''Selected template '' @ [CHR 0x27] @ selectedName @ [CHR 0x27]
                                             @ '' not found in available templates'')),
                                 done @ [LogError ''Selected template not found in available templates''])
                            | Some selectedTemplate \<Rightarrow>
                                (case getTemplateDetails (name selectedTemplate) of
                                   Inl e \<Rightarrow>
                                     (Inl (Error (''Template service error: Failed to fetch template details for ''
                                                  @ [CHR 0x27] @ name selectedTemplate @ [CHR 0x27])),
                                      done @ [GetTemplateDetails (name selectedTemplate),
                                              LogError ''Failed to fetch template details''])
                                 | Inr templateDetailsResponse \<Rightarrow>
                                     (case templateDetails templateDetailsResponse of
                                        Some details \<Rightarrow>
                                          if success templateDetailsResponse then
                                            (Inr (details, analyzeQueryResponse),
                                             done @ [GetTemplateDetails (name selectedTemplate)])
                                          else
                                            (Inl (Error (''Failed to fetch template files: ''
                                                         @ or_unknown (error_message templateDetailsResponse))),
                                             done @ [GetTemplateDetails (name selectedTemplate),
                                                     LogError ''Template details request failed''])
                                      | None \<Rightarrow>
                                          (Inl (Error (''Failed to fetch template files: ''
                                                       @ or_unknown (error_message templateDetailsResponse))),
                                           done @ [GetTemplateDetails (name selectedTemplate),
                                                   LogError ''Template details request failed''])))))))"

text \<open>The number of template-selection inference calls in a trace.\<close>

definition selection_calls :: "Effect list \<Rightarrow> nat" where
  "selection_calls trace = length (filter (\<lambda>c. case c of SelectTemplate _ \<Rightarrow> True | _ \<Rightarrow> False) trace)"

text \<open>
  Claim C5. Whenever the catalog response is missing, has \<open>success = false\<close> or lists
  no template, \<open>getTemplateForQuery\<close> throws an error, so it returns no template, and
  its trace holds no template-selection call.
\<close>

theorem getTemplateForQuery_catalog_required:
  assumes "listTemplates = Inr None \<or>
           (\<exists>r. listTemplates = Inr (Some r) \<and> (\<not> success r \<or> templates r = []))"
  shows "(\<exists>m. fst (getTemplateForQuery listTemplates selectTemplate getTemplateDetails query images)
              = Inl (Error m)) \<and>
         selection_calls
           (snd (getTemplateForQuery listTemplates selectTemplate getTemplateDetails query images)) = 0"
  using assms by (auto simp: getTemplateForQuery_def selection_calls_def)

theorem getTemplateForQuery_catalog_required_witness:
  "getTemplateForQuery
      (Inr (Some \<lparr>success = False, error_message = Some ''catalog offline'', templates = []\<rparr>))
      (\<lambda>q ts i. Inr \<lparr>selectedTemplateName = Some ''vite-react'', reasoning = ''fits''\<rparr>)
      (\<lambda>n. Inr \<lparr>success = True, error_message = None, templateDetails = Some n\<rparr>)
      ''build a todo list'' () =
     (Inl (Error ''Failed to fetch templates from template service: catalog offline''),
      [ListTemplates, LogError ''Template list request failed'']) \<and>
   getTemplateForQuery
      (Inr (Some \<lparr>success = True, error_message = None, templates = []\<rparr>))
      (\<lambda>q ts i. Inr \<lparr>selectedTemplateName = Some ''vite-react'', reasoning = ''fits''\<rparr>)
      (\<lambda>n. Inr \<lparr>success = True, error_message = None, templateDetails = Some n\<rparr>)
      ''build a todo list'' () =
     (Inl (Error ''No templates available in the template catalog''), [ListTemplates]) \<and>
   selection_calls [ListTemplates] = 0"
  using getTemplateForQuery_catalog_required
          [of "Inr (Some \<lparr>success = False, error_message = Some ''catalog offline'', templates = []\<rparr>)"
              "\<lambda>q ts i. Inr \<lparr>selectedTemplateName = Some ''vite-react'', reasoning = ''fits''\<rparr>"
              "\<lambda>n. Inr \<lparr>success = True, error_message = None, templateDetails = Some n\<rparr>"
              "''build a todo list''" "()"]
        getTemplateForQuery_catalog_required
          [of "Inr (Some \<lparr>success = True, error_message = None, templates = []\<rparr>)"
              "\<lambda>q ts i. Inr \<lparr>selectedTemplateName = Some ''vite-react'', reasoning = ''fits''\<rparr>"
              "\<lambda>n. Inr \<lparr>success = True, error_message = None, templateDetails = Some n\<rparr>"
              "''build a todo list''" "()"]
  by (simp add: getTemplateForQuery_def selection_calls_def or_unknown_def)

text \<open>With a catalog of one template the whole path runs and the selection call is made.\<close>

lemma getTemplateForQuery_selects:
  "getTemplateForQuery
      (Inr (Some \<lparr>success = True, error_message = None, templates = [\<lparr>name = ''vite-react''\<rparr>]\<rparr>))
      (\<lambda>q ts i. Inr \<lparr>selectedTemplateName = Some ''vite-react'', reasoning = ''fits''\<rparr>)
      (\<lambda>n. Inr \<lparr>success = True, error_message = None, templateDetails = Some n\<rparr>)
      ''build a todo list'' () =
     (Inr (''vite-react'', \<lparr>selectedTemplateName = Some ''vite-react'', reasoning = ''fits''\<rparr>),
      [ListTemplates, SelectTemplate [\<lparr>name = ''vite-react''\<rparr>], LogInfo ''Selected template'',
       GetTemplateDetails ''vite-react''])"
  by (simp add: getTemplateForQuery_def)

section \<open>Model profiles (\<open>AGENT_CONFIG\<close>)\<close>

text \<open>
  \<open>config.types.ts\<close> declares the string enum \<open>AIModels\<close> and the interface
  \<open>ModelConfig\<close>:
  \<^verbatim>\<open>
  export interface ModelConfig {
      name: AIModels | string;
      reasoning_effort?: ReasoningEffort;
      max_tokens?: number;
      temperature?: number;
      fallbackModel?: AIModels | string;
  }
  \<close>
  An enum member is its string value, an optional field an \<open>option\<close>. \<open>AGENT_CONFIG\<close>
  is the object literal of \<open>config.ts\<close>, field by field.
\<close>

definition DISABLED :: string where "DISABLED = ''disabled''"
definition GEMINI_3_PRO :: string where "GEMINI_3_PRO = ''google-ai-studio/gemini-3-pro''"
definition GEMINI_2_5_PRO :: string where "GEMINI_2_5_PRO = ''google-ai-studio/gemini-2.5-pro''"
definition CLAUDE_SONNET_4_5 :: string where
  "CLAUDE_SONNET_4_5 = ''anthropic/claude-sonnet-4-5-20250929''"
definition CLAUDE_HAIKU_4_5 :: string where
  "CLAUDE_HAIKU_4_5 = ''anthropic/claude-haiku-4-5-20251001''"
definition GROK_4_1_FAST_REASONING :: string where
  "GROK_4_1_FAST_REASONING = ''grok/grok-4-1-fast-reasoning''"
definition GROK_CODE_FAST_1 :: string where "GROK_CODE_FAST_1 = ''grok/grok-code-fast-1''"

lemmas AIModels_defs =
  DISABLED_def GEMINI_3_PRO_def GEMINI_2_5_PRO_def CLAUDE_SONNET_4_5_def CLAUDE_HAIKU_4_5_def
  GROK_4_1_FAST_REASONING_def GROK_CODE_FAST_1_def

datatype ReasoningEffort = low | medium | high

record ModelConfig =
  name :: string
  reasoning_effort :: "ReasoningEffort option"
  max_tokens :: "int option"
  temperature :: "rat option"
  fallbackModel :: "string option"

record AgentConfig =
  templateSelection :: ModelConfig
  blueprint :: ModelConfig
  projectSetup :: ModelConfig
  phaseGeneration :: ModelConfig
  phaseImplementation :: ModelConfig
  firstPhaseImplementation :: ModelConfig
  codeReview :: ModelConfig
  fileRegeneration :: ModelConfig
  screenshotAnalysis :: ModelConfig
  realtimeCodeFixer :: ModelConfig
  fastCodeFixer :: ModelConfig
  conversationalResponse :: ModelConfig
  deepDebugger :: ModelConfig

definition AGENT_CONFIG :: AgentConfig where
  "AGENT_CONFIG = \<lparr>
     templateSelection =
       \<lparr>name = CLAUDE_HAIKU_4_5, reasoning_effort = None, max_tokens = Some 2000,
        temperature = Some 0.6, fallbackModel = Some GROK_CODE_FAST_1\<rparr>,
     blueprint =
       \<lparr>name = CLAUDE_SONNET_4_5, reasoning_effort = Some medium, max_tokens = Some 64000,
        temperature = Some 0.7, fallbackModel = Some GROK_4_1_FAST_REASONING\<rparr>,
     projectSetup =
       \<lparr>name = CLAUDE_SONNET_4_5, reasoning_effort = Some low, max_tokens = Some 10000,
        temperature = Some 0.2, fallbackModel = Some GROK_4_1_FAST_REASONING\<rparr>,
     phaseGeneration =
       \<lparr>name = CLAUDE_SONNET_4_5, reasoning_effort = Some low, max_tokens = Some 32000,
        temperature = Some 0.2, fallbackModel = Some GROK_4_1_FAST_REASONING\<rparr>,
     phaseImplementation =
       \<lparr>name = CLAUDE_SONNET_4_5, reasoning_effort = Some low, max_tokens = Some 64000,
        temperature = Some 0.2, fallbackModel = Some GROK_4_1_FAST_REASONING\<rparr>,
     firstPhaseImplementation =
       \<lparr>name = CLAUDE_SONNET_4_5, reasoning_effort = Some low, max_tokens = Some 64000,
        temperature = Some 0.2, fallbackModel = Some GROK_4_1_FAST_REASONING\<rparr>,
     codeReview =
       \<lparr>name = CLAUDE_SONNET_4_5, reasoning_effort = Some medium, max_tokens = Some 32000,
        temperature = Some 0.1, fallbackModel = Some GROK_4_1_FAST_REASONING\<rparr>,
     fileRegeneration =
       \<lparr>name = GROK_CODE_FAST_1, reasoning_effort = Some low, max_tokens = Some 32000,
        temperature = Some 0, fallbackModel = Some CLAUDE_SONNET_4_5\<rparr>,
     screenshotAnalysis =
       \<lparr>name = CLAUDE_SONNET_4_5, reasoning_effort = Some medium, max_tokens = Some 8000,
        temperature = Some 0.1, fallbackModel = Some GROK_4_1_FAST_REASONING\<rparr>,
     realtimeCodeFixer =
       \<lparr>name = DISABLED, reasoning_effort = Some low, max_tokens = Some 32000,
        temperature = Some 1, fallbackModel = Some CLAUDE_HAIKU_4_5\<rparr>,
     fastCodeFixer =
       \<lparr>name = DISABLED, reasoning_effort = None, max_tokens = Some 64000,
        temperature = Some 0.0, fallbackModel = Some CLAUDE_SONNET_4_5\<rparr>,
     conversationalResponse =
       \<lparr>name = CLAUDE_HAIKU_4_5, reasoning_effort = Some low, max_tokens = Some 4000,
        temperature = Some 0, fallbackModel = Some GROK_CODE_FAST_1\<rparr>,
     deepDebugger =
       \<lparr>name = CLAUDE_SONNET_4_5, reasoning_effort = Some high, max_tokens = Some 8000,
        temperature = Some 0.5, fallbackModel = Some GROK_4_1_FAST_REASONING\<rparr>\<rparr>"

definition ALL_AI_MODELS :: "string list" where
  "ALL_AI_MODELS =
     [DISABLED, GEMINI_3_PRO, GEMINI_2_5_PRO, CLAUDE_SONNET_4_5, CLAUDE_HAIKU_4_5,
      GROK_4_1_FAST_REASONING, GROK_CODE_FAST_1]"

definition isValidAIModel :: "string \<Rightarrow> bool" where
  "isValidAIModel model \<longleftrightarrow> model \<in> set ALL_AI_MODELS"

definition profiles :: "AgentConfig \<Rightarrow> ModelConfig list" where
  "profiles c =
     [templateSelection c, blueprint c, projectSetup c, phaseGeneration c,
      phaseImplementation c, firstPhaseImplementation c, codeReview c, fileRegeneration c,
      screenshotAnalysis c, realtimeCodeFixer c, fastCodeFixer c, conversationalResponse c,
      deepDebugger c]"

lemma AGENT_CONFIG_fallbacks:
  "list_all (\<lambda>p. case fallbackModel p of None \<Rightarrow> False
                  | Some fb \<Rightarrow> fb \<noteq> name p \<and> isValidAIModel fb \<and> fb \<noteq> DISABLED)
     (profiles AGENT_CONFIG)"
  by (simp add: profiles_def AGENT_CONFIG_def isValidAIModel_def ALL_AI_MODELS_def
        AIModels_defs)

section \<open>The post-phase corrector\<close>

text \<open>
  Modelled from the spec: the Post-Phase Corrector \<open>correct(files, phaseContext)\<close>; its
  code (\<open>worker/agents/operations/PostPhaseCodeFixer.ts\<close> and the code fixers that
  the two profiles configure) is not among the sources. The spec, section 4.4: the
  corrector never fails the phase, and on a correction error the pre-correction files are
  kept; it performs static validation and, if issues are found, issues one additional
  inference call asking the model to patch only the flagged files; it is disableable by
  the \<open>DISABLED\<close> model sentinel, and when disabled it is a no-op that passes the
  files through unchanged. The file tree is a map from paths to contents; the static
  validation (the paths it flags) and the inference call are parameters.
\<close>

type_synonym Files = "string \<rightharpoonup> string"

definition correct ::
  "ModelConfig \<Rightarrow> (Files \<Rightarrow> string list)
     \<Rightarrow> (ModelConfig \<Rightarrow> Files \<Rightarrow> string list \<Rightarrow> 'e + Files) \<Rightarrow> Files \<Rightarrow> Files" where
  "correct profile validate patch files =
     (if name profile = DISABLED then files
      else
        (case validate files of
           [] \<Rightarrow> files
         | flagged \<Rightarrow>
             (case patch profile files flagged of
                Inl failure \<Rightarrow> files
              | Inr patched \<Rightarrow> (\<lambda>path. if path \<in> set flagged then patched path else files path))))"

text \<open>
  Claim C8. \<open>disabled\<close> is a member of the \<open>AIModels\<close> enum, so the configuration
  admits it as a model name; in \<open>AGENT_CONFIG\<close> the profiles \<open>realtimeCodeFixer\<close> and
  \<open>fastCodeFixer\<close> have the name \<open>DISABLED\<close>; and a corrector whose profile is
  \<open>DISABLED\<close>, these two among them, returns its input files unchanged, whatever the
  validation flags and whatever the inference call would answer.
\<close>

theorem corrector_disabled_by_default:
  "isValidAIModel DISABLED \<and>
   name (realtimeCodeFixer AGENT_CONFIG) = DISABLED \<and>
   name (fastCodeFixer AGENT_CONFIG) = DISABLED \<and>
   (name profile = DISABLED \<longrightarrow> correct profile validate patch files = files) \<and>
   correct (realtimeCodeFixer AGENT_CONFIG) validate patch files = files \<and>
   correct (fastCodeFixer AGENT_CONFIG) validate patch files = files"
  by (simp add: isValidAIModel_def ALL_AI_MODELS_def AGENT_CONFIG_def correct_def)

theorem corrector_disabled_by_default_witness:
  "name (realtimeCodeFixer AGENT_CONFIG) = DISABLED \<and>
   correct (realtimeCodeFixer AGENT_CONFIG) (\<lambda>fs. [''src/App.tsx''])
      (\<lambda>p fs flagged. (Inr [''src/App.tsx'' \<mapsto> ''patched''] :: unit + Files))
      [''src/App.tsx'' \<mapsto> ''export default 1''] = [''src/App.tsx'' \<mapsto> ''export default 1'']"
  using corrector_disabled_by_default
          [of "realtimeCodeFixer AGENT_CONFIG" "\<lambda>fs. [''src/App.tsx'']"
              "\<lambda>p fs flagged. (Inr [''src/App.tsx'' \<mapsto> ''patched''] :: unit + Files)"
              "[''src/App.tsx'' \<mapsto> ''export default 1'']"]
  by simp

text \<open>An enabled corrector does change a flagged file, so the theorem is about the sentinel.\<close>

lemma correct_enabled_patches:
  "correct (codeReview AGENT_CONFIG) (\<lambda>fs. [''src/App.tsx''])
      (\<lambda>p fs flagged. (Inr [''src/App.tsx'' \<mapsto> ''patched''] :: unit + Files))
      [''src/App.tsx'' \<mapsto> ''export default 1''] ''src/App.tsx'' = Some ''patched''"
  by (simp add: correct_def AGENT_CONFIG_def AIModels_defs)

section \<open>The inference gateway: retry, then one fallback\<close>

text \<open>
  Modelled from the spec: \<open>invoke(request, modelConfig)\<close> of the Inference Gateway; its
  code (\<open>worker/agents/inferutils/core.ts\<close>, apart from the credential lookup above) is
  not among the sources. The spec, section 4.1: every invocation is wrapped with bounded
  retry, up to N attempts with exponential backoff, retrying only errors classified
  recoverable; on failure the fallback model of the configuration is tried, once per
  configured chain, the chain having length 1; if the fallback fails too, the error is
  surfaced with the attempt history (provider name, error message) of both attempts.
  The retry wrapper is \<open>withRetry\<close> as the sources have it, with \<open>recoverable\<close> as its
  \<open>shouldRetry\<close>; the provider call is a parameter acting on a world state. A run
  records the response and the models tried, in order, each with the number of provider
  calls made to it.
\<close>

record ProviderError =
  provider :: string
  message :: string
  recoverable :: bool

record 'r GatewayRun =
  response :: "(string \<times> string) list + 'r"
  tried :: "(string \<times> nat) list"

definition providerOf :: "string \<Rightarrow> string" where
  "providerOf model = (case split (CHR ''/'') model of [] \<Rightarrow> [] | p # _ \<Rightarrow> p)"

definition historyEntry :: "string \<Rightarrow> ProviderError option \<Rightarrow> string \<times> string" where
  "historyEntry model thrown =
     (providerOf model, case thrown of None \<Rightarrow> [] | Some e \<Rightarrow> message e)"

definition invoke ::
  "(string \<Rightarrow> 'q \<Rightarrow> 'w \<Rightarrow> (ProviderError + 'r) \<times> 'w) \<Rightarrow> ProviderError RetryOptions \<Rightarrow> 'q
     \<Rightarrow> ModelConfig \<Rightarrow> 'w \<Rightarrow> 'r GatewayRun \<times> 'w" where
  "invoke callModel policy request modelConfig w =
     (let options = policy\<lparr>shouldRetry := Some recoverable\<rparr>;
          primary = withRetry (callModel (name modelConfig) request) options w
      in case outcome primary of
           Inr result \<Rightarrow>
             (\<lparr>response = Inr result, tried = [(name modelConfig, calls primary)]\<rparr>,
              final primary)
         | Inl e1 \<Rightarrow>
             (case fallbackModel modelConfig of
                None \<Rightarrow>
                  (\<lparr>response = Inl [historyEntry (name modelConfig) e1],
                    tried = [(name modelConfig, calls primary)]\<rparr>,
                   final primary)
              | Some fallback \<Rightarrow>
                  (let secondary = withRetry (callModel fallback request) options (final primary)
                   in (\<lparr>response =
                          (case outcome secondary of
                             Inr result \<Rightarrow> Inr result
                           | Inl e2 \<Rightarrow>
                               Inl [historyEntry (name modelConfig) e1, historyEntry fallback e2]),
                        tried = [(name modelConfig, calls primary), (fallback, calls secondary)]\<rparr>,
                       final secondary))))"




lemma rejects_recoverable [simp]:
  "rejects (policy\<lparr>shouldRetry := Some recoverable\<rparr>) e \<longleftrightarrow> \<not> recoverable e"
  by (simp add: rejects_def)



text \<open>
  The provider-outage scenario of the spec: the primary always answers 503, the
  fallback answers, and the gateway returns the fallback's result.
\<close>

lemma gateway_provider_outage:
  "fst (invoke
          (\<lambda>model q (n::nat).
              (if providerOf model = ''anthropic''
               then Inl \<lparr>provider = ''anthropic'', message = ''503 service unavailable'',
                         recoverable = True\<rparr>
               else Inr (''plan by '' @ model), Suc n))
          \<lparr>maxAttempts = 3, backoffMs = 1000, maxBackoffMs = Some 30000, shouldRetry = None\<rparr>
          ''plan a todo list'' (blueprint AGENT_CONFIG) 0) =
     \<lparr>response = Inr ''plan by grok/grok-4-1-fast-reasoning'',
      tried = [(CLAUDE_SONNET_4_5, 3), (GROK_4_1_FAST_REASONING, 1)]\<rparr>"
  by (simp add: invoke_def withRetry_def withRetry_loop.simps rejects_def retry_delay_def
        maxBackoffMs_or_default_def historyEntry_def providerOf_def AGENT_CONFIG_def
        AIModels_defs Let_def)

section \<open>Cloning a session (\<open>cloneAgent\<close>)\<close>

text \<open>
  \<open>cloneAgent\<close> of \<open>worker/agents/index.ts\<close>:
  \<^verbatim>\<open>
  const agentInstance = await getAgentStub(env, agentId);
  if (!agentInstance || !await agentInstance.isInitialized()) {
      throw new Error(`Agent ${agentId} not found`);
  }
  const newAgentId = generateId();
  const newAgent = await getAgentStub(env, newAgentId);
  const originalState = await agentInstance.getFullState() as CodeGenState;
  const newState = { ...originalState, sessionId: newAgentId, sandboxInstanceId: undefined,
      pendingUserInputs: [], currentDevState: 0, generationPromise: undefined,
      shouldBeGenerating: false, clientReportedErrors: [] };
  await newAgent.setState(newState);
  return {newAgentId, newAgent};
  \<close>
  The declaration of \<open>CodeGenState\<close> is not among the sources: the record has the seven
  fields that \<open>cloneAgent\<close> names, and all the others live in the record's extension,
  which the spread copies. The durable-object namespace \<open>env.CodeGenObject\<close> is the
  store: it gives every agent name the state its object holds, and a stub is the name
  it addresses, so \<open>getAgentStub\<close> always returns one. \<open>isInitialized\<close> and
  \<open>generateId\<close> are not among the sources either: the first is a parameter, a
  predicate on the state of the object, the second is the id that the call returns.
\<close>

record ('u, 'p, 'c) CodeGenState =
  sessionId :: string
  sandboxInstanceId :: "string option"
  pendingUserInputs :: "'u list"
  currentDevState :: int
  generationPromise :: "'p option"
  shouldBeGenerating :: bool
  clientReportedErrors :: "'c list"





section \<open>MIME type from a file extension (two definitions)\<close>

text \<open>
  \<open>filesRoutes.ts\<close> bundles two definitions of \<open>getMimeTypeFromExtension\<close>. The first
  (line 339) is
  \<^verbatim>\<open>
  const ext = filename.toLowerCase().substring(filename.lastIndexOf('.'));
  const mimeMap: Record<string, SupportedFileMimeType> = { '.js': 'text/javascript', ... };
  return mimeMap[ext] || 'application/octet-stream';
  \<close>
  and the second (line 646), named \<open>getMimeTypeFromExtension2\<close> here, is
  \<^verbatim>\<open>
  const ext = filename.toLowerCase().split('.').pop();
  const extensionMap: Record<string, SupportedFileMimeType> = { 'png': 'image/png', ... };
  return ext ? extensionMap[ext] || null : null;
  \<close>
  A JavaScript string is the list of its UTF-16 code units, natural numbers here, and
  indices count code units. The string literals of the code are ASCII: \<open>js\<close> turns one
  into its code units. \<open>toLowerCase\<close> follows the Unicode tables of the runtime, which
  may change the length of a string (\<open>U+0130\<close> becomes two code units); it is a
  parameter of both definitions, and the theorems below ask of it only what ECMAScript
  fixes for ASCII strings: the letters A to Z are lowered, as \<open>asciiLowerCase\<close> does,
  and nothing else changes. \<open>lastIndexOf\<close> is \<open>-1\<close> when the unit does not occur,
  and \<open>substring\<close> with one argument clamps a negative start to 0 and a start beyond
  the end to the end. Both maps are object literals, so reading a key that the literal
  does not have finds the members of \<open>Object.prototype\<close>: the value read is a string of
  the literal, an inherited member, or \<open>undefined\<close>, and the value returned is a string,
  an inherited member (it is truthy), or \<open>null\<close>.
\<close>

definition js :: "string \<Rightarrow> nat list" where
  "js s = map of_char s"

definition asciiLowerCase_char :: "char \<Rightarrow> char" where
  "asciiLowerCase_char c =
     (case map_of (zip ''ABCDEFGHIJKLMNOPQRSTUVWXYZ'' ''abcdefghijklmnopqrstuvwxyz'') c of
        Some l \<Rightarrow> l | None \<Rightarrow> c)"

definition asciiLowerCase :: "string \<Rightarrow> string" where
  "asciiLowerCase s = map asciiLowerCase_char s"

definition ascii :: "string \<Rightarrow> bool" where
  "ascii s \<longleftrightarrow> list_all (\<lambda>c. (of_char c :: nat) < 128) s"

fun lastIndexOf :: "'a \<Rightarrow> 'a list \<Rightarrow> int" where
  "lastIndexOf c [] = -1"
| "lastIndexOf c (x # xs) =
     (if lastIndexOf c xs \<ge> 0 then lastIndexOf c xs + 1 else if x = c then 0 else -1)"

definition substring :: "'a list \<Rightarrow> int \<Rightarrow> 'a list" where
  "substring s start = drop (nat start) s"

definition pop :: "'a list \<Rightarrow> 'a option" where
  "pop xs = (if xs = [] then None else Some (last xs))"

datatype JSValue = Str string | Inherited "nat list" | Undefined | Null

definition Object_prototype :: "string list" where
  "Object_prototype =
     [''constructor'', ''__defineGetter__'', ''__defineSetter__'', ''hasOwnProperty'',
      ''__lookupGetter__'', ''__lookupSetter__'', ''isPrototypeOf'', ''propertyIsEnumerable'',
      ''toString'', ''valueOf'', ''__proto__'', ''toLocaleString'']"

definition property :: "(string \<times> string) list \<Rightarrow> nat list \<Rightarrow> JSValue" where
  "property literal key =
     (case map_of (map (\<lambda>(k, v). (js k, v)) literal) key of
        Some v \<Rightarrow> Str v
      | None \<Rightarrow> if key \<in> set (map js Object_prototype) then Inherited key else Undefined)"

definition truthy :: "JSValue \<Rightarrow> bool" where
  "truthy v = (case v of Str s \<Rightarrow> s \<noteq> [] | Inherited k \<Rightarrow> True | Undefined \<Rightarrow> False | Null \<Rightarrow> False)"

definition mimeMap :: "(string \<times> string) list" where
  "mimeMap =
    [(''.js'', ''text/javascript''), (''.jsx'', ''text/javascript''),
     (''.mjs'', ''text/javascript''), (''.cjs'', ''text/javascript''),
     (''.ts'', ''text/typescript''), (''.tsx'', ''text/typescript''),
     (''.html'', ''text/html''), (''.htm'', ''text/html''), (''.css'', ''text/css''),
     (''.scss'', ''text/css''), (''.sass'', ''text/css''), (''.less'', ''text/css''),
     (''.json'', ''application/json''), (''.yaml'', ''text/yaml''),
     (''.yml'', ''text/yaml''), (''.xml'', ''application/xml''), (''.csv'', ''text/csv''),
     (''.py'', ''text/x-python''), (''.pyw'', ''text/x-python''),
     (''.pyx'', ''text/x-python''), (''.java'', ''text/x-java-source''),
     (''.kt'', ''text/x-kotlin''), (''.kts'', ''text/x-kotlin''),
     (''.scala'', ''text/x-scala''), (''.c'', ''text/x-c''), (''.h'', ''text/x-c''),
     (''.cpp'', ''text/x-c++''), (''.cc'', ''text/x-c++''), (''.cxx'', ''text/x-c++''),
     (''.hpp'', ''text/x-c++''), (''.hh'', ''text/x-c++''), (''.rs'', ''text/x-rust''),
     (''.go'', ''text/x-go''), (''.rb'', ''text/x-ruby''), (''.erb'', ''text/x-ruby''),
     (''.php'', ''text/x-php''), (''.swift'', ''text/x-swift''),
     (''.sh'', ''application/x-sh''), (''.bash'', ''application/x-sh''),
     (''.zsh'', ''application/x-sh''), (''.fish'', ''application/x-sh''),
     (''.sql'', ''application/sql''), (''.md'', ''text/markdown''),
     (''.mdx'', ''text/markdown''), (''.txt'', ''text/plain''),
     (''.text'', ''text/plain''), (''.zip'', ''application/zip''),
     (''.tar'', ''application/x-tar''), (''.gz'', ''application/gzip''),
     (''.tgz'', ''application/gzip'')]"

definition extensionMap :: "(string \<times> string) list" where
  "extensionMap =
    [(''png'', ''image/png''), (''jpg'', ''image/jpeg''), (''jpeg'', ''image/jpeg''),
     (''webp'', ''image/webp''), (''txt'', ''text/plain''), (''md'', ''text/markdown''),
     (''js'', ''application/javascript''), (''mjs'', ''application/javascript''),
     (''cjs'', ''application/javascript''), (''ts'', ''application/typescript''),
     (''tsx'', ''application/typescript''), (''jsx'', ''application/javascript''),
     (''html'', ''text/html''), (''css'', ''text/css''), (''json'', ''application/json''),
     (''xml'', ''application/xml''), (''py'', ''text/x-python''),
     (''java'', ''text/x-java-source''), (''c'', ''text/x-c''),
     (''cpp'', ''text/x-c++src''), (''cc'', ''text/x-c++src''),
     (''cxx'', ''text/x-c++src''), (''h'', ''text/x-c''), (''hpp'', ''text/x-c++src''),
     (''go'', ''text/x-go''), (''rs'', ''text/x-rust''), (''rb'', ''text/x-ruby''),
     (''php'', ''text/x-php''), (''swift'', ''text/x-swift''), (''kt'', ''text/x-kotlin''),
     (''cs'', ''text/x-csharp''), (''sh'', ''text/x-sh''), (''bash'', ''text/x-sh''),
     (''yaml'', ''application/x-yaml''), (''yml'', ''application/x-yaml''),
     (''toml'', ''application/toml''), (''zip'', ''application/zip''),
     (''gz'', ''application/gzip''), (''tar'', ''application/x-tar'')]"

definition getMimeTypeFromExtension :: "(nat list \<Rightarrow> nat list) \<Rightarrow> nat list \<Rightarrow> JSValue" where
  "getMimeTypeFromExtension toLowerCase filename =
     (let ext = substring (toLowerCase filename) (lastIndexOf (of_char (CHR ''.'')) filename)
      in if truthy (property mimeMap ext) then property mimeMap ext
         else Str ''application/octet-stream'')"

definition getMimeTypeFromExtension2 :: "(nat list \<Rightarrow> nat list) \<Rightarrow> nat list \<Rightarrow> JSValue" where
  "getMimeTypeFromExtension2 toLowerCase filename =
     (case pop (split (of_char (CHR ''.'')) (toLowerCase filename)) of
        None \<Rightarrow> Null
      | Some ext \<Rightarrow>
          if ext \<noteq> [] then
            (if truthy (property extensionMap ext) then property extensionMap ext else Null)
          else Null)"

text \<open>
  A \<open>toLowerCase\<close> to run the definitions with: it lowers the code units of A to Z,
  turns \<open>U+0130\<close> into \<open>i\<close> followed by \<open>U+0307\<close>, as the Unicode tables do, and leaves
  every other unit as it is.
\<close>

definition toLowerCase_sample :: "nat list \<Rightarrow> nat list" where
  "toLowerCase_sample s =
     concat (map (\<lambda>u. if 65 \<le> u \<and> u \<le> 90 then [u + 32]
                      else if u = 304 then [105, 775] else [u]) s)"

subsection \<open>Code units and ASCII strings\<close>

lemma js_eq_iff [simp]: "js a = js b \<longleftrightarrow> a = b"
  by (simp add: js_def inj_map_eq_map [OF inj_of_char])

lemma js_Nil [simp]: "js s = [] \<longleftrightarrow> s = []"
  by (simp add: js_def)

lemma js_append: "js (a @ b) = js a @ js b"
  by (simp add: js_def)

lemma js_mem: "of_char c \<in> set (js s) \<longleftrightarrow> c \<in> set s"
  by (auto simp: js_def)

lemma map_of_js: "map_of (map (\<lambda>(k, v). (js k, v)) t) (js x) = map_of t x"
  by (induction t) auto

lemma property_js:
  "property t (js x) =
     (case map_of t x of
        Some v \<Rightarrow> Str v
      | None \<Rightarrow> if x \<in> set Object_prototype then Inherited (js x) else Undefined)"
  by (auto simp: property_def map_of_js split: option.splits)

lemma lastIndexOf_js: "lastIndexOf (of_char c) (js s) = lastIndexOf c s"
  by (induction s) (simp_all add: js_def)

lemma substring_js: "substring (js s) i = js (substring s i)"
  by (simp add: substring_def js_def drop_map)

lemma split_js: "split (of_char c) (js s) = map js (split c s)"
  by (induction s) (auto simp: js_def split: list.splits)

lemma pop_map: "pop (map f xs) = map_option f (pop xs)"
  by (simp add: pop_def last_map)

lemma asciiLowerCase_code_unit:
  "(of_char (asciiLowerCase_char c) :: nat) =
     (if 65 \<le> (of_char c :: nat) \<and> (of_char c :: nat) \<le> 90 then of_char c + 32 else of_char c)"
proof (cases "c \<in> set ''ABCDEFGHIJKLMNOPQRSTUVWXYZ''")
  case True
  then show ?thesis
    unfolding set_simps insert_iff empty_iff
    by (elim disjE FalseE) (simp_all add: asciiLowerCase_char_def)
next
  case False
  then have same: "asciiLowerCase_char c = c" by (simp add: asciiLowerCase_char_def)
  have "\<not> (65 \<le> (of_char c :: nat) \<and> (of_char c :: nat) \<le> 90)"
  proof
    assume r: "65 \<le> (of_char c :: nat) \<and> (of_char c :: nat) \<le> 90"
    then have "(of_char c :: nat) \<in> of_char ` set ''ABCDEFGHIJKLMNOPQRSTUVWXYZ''"
      by simp arith
    then have "c \<in> set ''ABCDEFGHIJKLMNOPQRSTUVWXYZ''"
      using inj_of_char [where ?'a = nat] by (simp add: inj_image_mem_iff del: set_simps)
    with False show False ..
  qed
  with same show ?thesis by simp
qed

lemma toLowerCase_sample_js: "toLowerCase_sample (js s) = js (asciiLowerCase s)"
proof (induction s)
  case Nil
  show ?case by (simp add: toLowerCase_sample_def js_def asciiLowerCase_def)
next
  case (Cons c s)
  have "(of_char c :: nat) < 256" by simp
  then have "(of_char c :: nat) \<noteq> 304" by arith
  with Cons show ?case
    by (simp add: toLowerCase_sample_def js_def asciiLowerCase_def asciiLowerCase_code_unit)
qed

subsection \<open>The two definitions on ASCII names\<close>

text \<open>
  On an ASCII name everything the definitions do stays within ASCII, and the results
  are those of reading the tables with the extension as a string: \<open>property_ascii\<close> is
  \<open>property\<close> at the code units of a string, and \<open>first_result\<close> and \<open>second_result\<close>
  are what the two definitions return once the extension is read.
\<close>

definition property_ascii :: "(string \<times> string) list \<Rightarrow> string \<Rightarrow> JSValue" where
  "property_ascii literal key =
     (case map_of literal key of
        Some v \<Rightarrow> Str v
      | None \<Rightarrow> if key \<in> set Object_prototype then Inherited (js key) else Undefined)"

definition first_result :: "string \<Rightarrow> JSValue" where
  "first_result ext =
     (if truthy (property_ascii mimeMap ext) then property_ascii mimeMap ext
      else Str ''application/octet-stream'')"

definition second_result :: "string \<Rightarrow> JSValue" where
  "second_result ext =
     (if ext \<noteq> [] then
        (if truthy (property_ascii extensionMap ext) then property_ascii extensionMap ext
         else Null)
      else Null)"

lemma property_ascii: "property t (js x) = property_ascii t x"
  by (simp add: property_js property_ascii_def)

lemma getMimeTypeFromExtension_ascii:
  assumes "\<forall>s. ascii s \<longrightarrow> toLowerCase (js s) = js (asciiLowerCase s)" and "ascii filename"
  shows "getMimeTypeFromExtension toLowerCase (js filename) =
           first_result (substring (asciiLowerCase filename) (lastIndexOf (CHR ''.'') filename))"
proof -
  from assms have "toLowerCase (js filename) = js (asciiLowerCase filename)" by blast
  then show ?thesis
    by (simp only: getMimeTypeFromExtension_def first_result_def Let_def lastIndexOf_js
          substring_js property_ascii)
qed

lemma getMimeTypeFromExtension2_ascii:
  assumes "\<forall>s. ascii s \<longrightarrow> toLowerCase (js s) = js (asciiLowerCase s)" and "ascii filename"
  shows "getMimeTypeFromExtension2 toLowerCase (js filename) =
           (case pop (split (CHR ''.'') (asciiLowerCase filename)) of
              None \<Rightarrow> Null | Some ext \<Rightarrow> second_result ext)"
proof -
  from assms have l: "toLowerCase (js filename) = js (asciiLowerCase filename)" by blast
  show ?thesis
    unfolding getMimeTypeFromExtension2_def second_result_def l split_js pop_map
    by (cases "pop (split (CHR ''.'') (asciiLowerCase filename))")
       (simp_all add: property_ascii)
qed

subsection \<open>The two ways of reading the extension\<close>

lemma asciiLowerCase_char_dot [simp]: "asciiLowerCase_char c = CHR ''.'' \<longleftrightarrow> c = CHR ''.''"
  by (simp add: asciiLowerCase_char_def)

lemma asciiLowerCase_no_dot: "CHR ''.'' \<in> set (asciiLowerCase s) \<longleftrightarrow> CHR ''.'' \<in> set s"
  by (induction s) (auto simp: asciiLowerCase_def eq_commute [of "CHR ''.''"])

lemma asciiLowerCase_not_upper:
  "asciiLowerCase_char c \<notin> set ''ABCDEFGHIJKLMNOPQRSTUVWXYZ''"
  by (simp add: asciiLowerCase_char_def)

lemma lastIndexOf_absent: "c \<notin> set s \<Longrightarrow> lastIndexOf c s = -1"
  by (induction s) auto

lemma lastIndexOf_last: "c \<notin> set e \<Longrightarrow> lastIndexOf c (stem @ c # e) = int (length stem)"
  by (induction stem) (auto simp: lastIndexOf_absent)

lemma split_single: "sep \<notin> set s \<Longrightarrow> split sep s = [s]"
  by (induction s) auto

lemma split_append: "split sep (a @ sep # b) = split sep a @ split sep b"
  by (induction a) (auto split: list.splits simp: split_nonempty)

lemma pop_split: "sep \<notin> set e \<Longrightarrow> pop (split sep (stem @ sep # e)) = Some e"
  by (simp add: pop_def split_append split_single)

lemma ext_by_substring:
  assumes "CHR ''.'' \<notin> set e"
  shows "substring (asciiLowerCase (stem @ ''.'' @ e)) (lastIndexOf (CHR ''.'') (stem @ ''.'' @ e)) =
           CHR ''.'' # asciiLowerCase e"
  using assms by (simp add: substring_def lastIndexOf_last asciiLowerCase_def asciiLowerCase_char_def)

lemma ext_by_split:
  assumes "CHR ''.'' \<notin> set e"
  shows "pop (split (CHR ''.'') (asciiLowerCase (stem @ ''.'' @ e))) = Some (asciiLowerCase e)"
proof -
  have "asciiLowerCase (stem @ ''.'' @ e) = asciiLowerCase stem @ CHR ''.'' # asciiLowerCase e"
    by (simp add: asciiLowerCase_def asciiLowerCase_char_def)
  moreover from assms have "CHR ''.'' \<notin> set (asciiLowerCase e)" by (simp add: asciiLowerCase_no_dot)
  ultimately show ?thesis by (simp add: pop_split)
qed

subsection \<open>Where the two tables agree\<close>

text \<open>
  \<open>agreeing_extensions\<close> lists the extensions that the second map holds with the very
  type that the first map gives to the dotted extension.
\<close>

definition agreeing_extensions :: "string list" where
  "agreeing_extensions =
     [''txt'', ''md'', ''html'', ''css'', ''json'', ''xml'', ''py'', ''java'', ''c'', ''h'',
      ''go'', ''rs'', ''rb'', ''php'', ''swift'', ''kt'', ''zip'', ''gz'', ''tar'']"

lemma first_result_dotted: "\<exists>m. first_result (CHR ''.'' # e) = Str m"
proof (cases "map_of mimeMap (CHR ''.'' # e)")
  case None
  then show ?thesis by (simp add: first_result_def property_ascii_def truthy_def Object_prototype_def)
next
  case (Some v)
  then show ?thesis by (simp add: first_result_def property_ascii_def truthy_def)
qed

lemma second_result_unlisted:
  assumes "e \<notin> fst ` set extensionMap"
  shows "second_result e = Null \<or> second_result e = Inherited (js e)"
proof -
  from assms have "map_of extensionMap e = None" by (simp add: map_of_eq_None_iff)
  then show ?thesis by (simp add: second_result_def property_ascii_def truthy_def)
qed

lemma results_listed_all:
  "list_all (\<lambda>e. (first_result (CHR ''.'' # e) = second_result e) = (e \<in> set agreeing_extensions))
     (map fst extensionMap)"
  by code_simp

lemma results_listed:
  assumes "e \<in> fst ` set extensionMap"
  shows "first_result (CHR ''.'' # e) = second_result e \<longleftrightarrow> e \<in> set agreeing_extensions"
  using results_listed_all assms by (auto simp: list_all_iff)

lemma agreeing_listed_all:
  "list_all (\<lambda>e. e \<in> set (map fst extensionMap)) agreeing_extensions"
  by code_simp

lemma agreeing_listed: "e \<in> set agreeing_extensions \<Longrightarrow> e \<in> fst ` set extensionMap"
  using agreeing_listed_all by (auto simp: list_all_iff)

lemma results_by_extension:
  "first_result (CHR ''.'' # e) = second_result e \<longleftrightarrow> e \<in> set agreeing_extensions"
proof (cases "e \<in> fst ` set extensionMap")
  case True
  then show ?thesis by (rule results_listed)
next
  case False
  from first_result_dotted [of e] obtain m where "first_result (CHR ''.'' # e) = Str m" ..
  with second_result_unlisted [OF False]
  have "first_result (CHR ''.'' # e) \<noteq> second_result e" by auto
  moreover from False agreeing_listed have "e \<notin> set agreeing_extensions" by blast
  ultimately show ?thesis by simp
qed

lemma mimeMap_keys_dotted_all: "list_all (\<lambda>k. CHR ''.'' \<in> set k) (map fst mimeMap)"
  by code_simp

lemma mimeMap_keys_dotted: "k \<in> fst ` set mimeMap \<Longrightarrow> CHR ''.'' \<in> set k"
  using mimeMap_keys_dotted_all by (auto simp: list_all_iff)

lemma first_result_undotted:
  assumes "CHR ''.'' \<notin> set f"
  shows "first_result f =
           (if f \<in> set Object_prototype then Inherited (js f) else Str ''application/octet-stream'')"
proof -
  from assms mimeMap_keys_dotted have "f \<notin> fst ` set mimeMap" by blast
  then have "map_of mimeMap f = None" by (simp add: map_of_eq_None_iff)
  then show ?thesis by (simp add: first_result_def property_ascii_def truthy_def)
qed

lemma extensionMap_values_all:
  "list_all (\<lambda>(k, v). k \<noteq> [] \<and> v \<noteq> [] \<and> v \<noteq> ''application/octet-stream'') extensionMap"
  by code_simp

lemma extensionMap_values:
  "(k, v) \<in> set extensionMap \<Longrightarrow> k \<noteq> [] \<and> v \<noteq> [] \<and> v \<noteq> ''application/octet-stream''"
  using extensionMap_values_all by (auto simp: list_all_iff)

lemma second_result_listed:
  assumes "e \<in> fst ` set extensionMap"
  shows "\<exists>m. second_result e = Str m \<and> m \<noteq> ''application/octet-stream''"
proof -
  from assms obtain v where v: "map_of extensionMap e = Some v"
    by (cases "map_of extensionMap e") (auto simp: map_of_eq_None_iff)
  then have "(e, v) \<in> set extensionMap" by (rule map_of_SomeD)
  from extensionMap_values [OF this]
  show ?thesis using v by (simp add: second_result_def property_ascii_def truthy_def)
qed

lemma second_result_inherited_all:
  "list_all (\<lambda>f. second_result f = Inherited (js f)) Object_prototype"
  by code_simp

lemma second_result_inherited:
  assumes "f \<in> set Object_prototype"
  shows "second_result f = Inherited (js f)"
  using second_result_inherited_all assms by (auto simp: list_all_iff)

lemma results_undotted:
  assumes "CHR ''.'' \<notin> set f"
  shows "first_result f = second_result f \<longleftrightarrow> f \<in> set Object_prototype"
proof (cases "f \<in> set Object_prototype")
  case True
  with assms show ?thesis by (simp add: first_result_undotted second_result_inherited)
next
  case False
  with assms have one: "first_result f = Str ''application/octet-stream''"
    by (simp add: first_result_undotted)
  have "second_result f \<noteq> Str ''application/octet-stream''"
  proof (cases "f \<in> fst ` set extensionMap")
    case True
    from second_result_listed [OF this] show ?thesis by auto
  next
    case False
    from second_result_unlisted [OF this] show ?thesis by auto
  qed
  with one False show ?thesis by simp
qed

lemma asciiLowerCase_has_no_upper:
  "u \<in> set ''ABCDEFGHIJKLMNOPQRSTUVWXYZ'' \<Longrightarrow> u \<notin> set (asciiLowerCase f)"
  using asciiLowerCase_not_upper by (auto simp: asciiLowerCase_def simp del: set_simps)

lemma asciiLowerCase_inherited:
  "asciiLowerCase f \<in> set Object_prototype \<longleftrightarrow>
   asciiLowerCase f = ''constructor'' \<or> asciiLowerCase f = ''__proto__''"
proof -
  have no: "asciiLowerCase f \<noteq> k" if "u \<in> set ''ABCDEFGHIJKLMNOPQRSTUVWXYZ''" "u \<in> set k" for u k
    using asciiLowerCase_has_no_upper [OF that(1), of f] that(2) by auto
  have "asciiLowerCase f \<noteq> ''__defineGetter__''" by (rule no [of "CHR ''G''"]) simp_all
  moreover have "asciiLowerCase f \<noteq> ''__defineSetter__''" by (rule no [of "CHR ''S''"]) simp_all
  moreover have "asciiLowerCase f \<noteq> ''hasOwnProperty''" by (rule no [of "CHR ''O''"]) simp_all
  moreover have "asciiLowerCase f \<noteq> ''__lookupGetter__''" by (rule no [of "CHR ''G''"]) simp_all
  moreover have "asciiLowerCase f \<noteq> ''__lookupSetter__''" by (rule no [of "CHR ''S''"]) simp_all
  moreover have "asciiLowerCase f \<noteq> ''isPrototypeOf''" by (rule no [of "CHR ''P''"]) simp_all
  moreover have "asciiLowerCase f \<noteq> ''propertyIsEnumerable''" by (rule no [of "CHR ''I''"]) simp_all
  moreover have "asciiLowerCase f \<noteq> ''toString''" by (rule no [of "CHR ''S''"]) simp_all
  moreover have "asciiLowerCase f \<noteq> ''valueOf''" by (rule no [of "CHR ''O''"]) simp_all
  moreover have "asciiLowerCase f \<noteq> ''toLocaleString''" by (rule no [of "CHR ''L''"]) simp_all
  ultimately show ?thesis by (auto simp: Object_prototype_def)
qed

lemma results_dotted_name:
  assumes "CHR ''.'' \<notin> set e"
  shows "first_result (substring (asciiLowerCase (stem @ ''.'' @ e))
                           (lastIndexOf (CHR ''.'') (stem @ ''.'' @ e))) =
           (case pop (split (CHR ''.'') (asciiLowerCase (stem @ ''.'' @ e))) of
              None \<Rightarrow> Null | Some ext \<Rightarrow> second_result ext)
         \<longleftrightarrow> asciiLowerCase e \<in> set agreeing_extensions"
  unfolding ext_by_substring [OF assms] ext_by_split [OF assms]
  by (simp only: option.case results_by_extension)

lemma results_undotted_name:
  assumes "CHR ''.'' \<notin> set f"
  shows "first_result (substring (asciiLowerCase f) (lastIndexOf (CHR ''.'') f)) =
           (case pop (split (CHR ''.'') (asciiLowerCase f)) of
              None \<Rightarrow> Null | Some ext \<Rightarrow> second_result ext)
         \<longleftrightarrow> asciiLowerCase f = ''constructor'' \<or> asciiLowerCase f = ''__proto__''"
proof -
  from assms have l: "CHR ''.'' \<notin> set (asciiLowerCase f)" by (simp add: asciiLowerCase_no_dot)
  from assms have "substring (asciiLowerCase f) (lastIndexOf (CHR ''.'') f) = asciiLowerCase f"
    by (simp add: lastIndexOf_absent substring_def)
  moreover from l have "pop (split (CHR ''.'') (asciiLowerCase f)) = Some (asciiLowerCase f)"
    by (simp add: split_single pop_def)
  ultimately show ?thesis
    using results_undotted [OF l] by (simp only: option.case asciiLowerCase_inherited)
qed

lemma istanbul_first:
  assumes "toLowerCase (304 # js ''stanbul.md'') = 105 # 775 # js ''stanbul.md''"
  shows "getMimeTypeFromExtension toLowerCase (304 # js ''stanbul.md'') =
           Str ''application/octet-stream''"
proof -
  have "lastIndexOf (46::nat) ((304 # js ''stanbul'') @ 46 # js ''md'') =
          int (length (304 # js ''stanbul''))"
    by (rule lastIndexOf_last) (simp add: js_def)
  then have i: "lastIndexOf (46::nat) (304 # js ''stanbul.md'') = 8" by (simp add: js_def)
  have "substring (105 # 775 # js ''stanbul.md'') 8 = js ''l.md''"
    by (simp add: substring_def js_def)
  moreover have "property_ascii mimeMap ''l.md'' = Undefined" by code_simp
  ultimately show ?thesis
    using assms i by (simp add: getMimeTypeFromExtension_def property_ascii truthy_def)
qed

lemma istanbul_second:
  assumes "toLowerCase (304 # js ''stanbul.md'') = 105 # 775 # js ''stanbul.md''"
  shows "getMimeTypeFromExtension2 toLowerCase (304 # js ''stanbul.md'') = Str ''text/markdown''"
proof -
  have "pop (split (46::nat) ((105 # 775 # js ''stanbul'') @ 46 # js ''md'')) = Some (js ''md'')"
    by (rule pop_split) (simp add: js_def)
  then have p: "pop (split (46::nat) (105 # 775 # js ''stanbul.md'')) = Some (js ''md'')"
    by (simp add: js_def)
  have "property_ascii extensionMap ''md'' = Str ''text/markdown''" by code_simp
  with p assms show ?thesis
    by (simp add: getMimeTypeFromExtension2_def property_ascii truthy_def)
qed

text \<open>
  Claim C10, as amended. For every filename of ASCII characters the two definitions
  return the same result exactly in these cases: the name has a \<open>.\<close> and its extension,
  the text after the last \<open>.\<close> in lower case, is one of
  \<open>txt md html css json xml py java c h go rs rb php swift kt zip gz tar\<close>; or the name
  has no \<open>.\<close> and in lower case is \<open>constructor\<close> or \<open>__proto__\<close>. On every other ASCII
  filename the two results differ. Outside ASCII an extension of the list does not
  suffice: the lower-case form of \<open>U+0130\<close> is two code units long, so for the name
  \<open>U+0130\<close> followed by \<open>stanbul.md\<close> the first definition cuts the lower-cased name
  one unit too early and returns \<open>application/octet-stream\<close>, and the second returns
  \<open>text/markdown\<close>.
\<close>

theorem mime_definitions_agree_on:
  assumes "\<forall>s. ascii s \<longrightarrow> toLowerCase (js s) = js (asciiLowerCase s)"
  shows "(ascii stem \<and> ascii e \<and> CHR ''.'' \<notin> set e \<longrightarrow>
            (getMimeTypeFromExtension toLowerCase (js (stem @ ''.'' @ e)) =
             getMimeTypeFromExtension2 toLowerCase (js (stem @ ''.'' @ e))
               \<longleftrightarrow> asciiLowerCase e \<in> set agreeing_extensions)) \<and>
         (ascii f \<and> CHR ''.'' \<notin> set f \<longrightarrow>
            (getMimeTypeFromExtension toLowerCase (js f) =
             getMimeTypeFromExtension2 toLowerCase (js f)
               \<longleftrightarrow> asciiLowerCase f = ''constructor'' \<or> asciiLowerCase f = ''__proto__'')) \<and>
         (toLowerCase (304 # js ''stanbul.md'') = 105 # 775 # js ''stanbul.md'' \<longrightarrow>
            getMimeTypeFromExtension toLowerCase (304 # js ''stanbul.md'') =
              Str ''application/octet-stream'' \<and>
            getMimeTypeFromExtension2 toLowerCase (304 # js ''stanbul.md'') =
              Str ''text/markdown'')"
proof (intro conjI impI)
  assume a: "ascii stem \<and> ascii e \<and> CHR ''.'' \<notin> set e"
  then have n: "ascii (stem @ ''.'' @ e)" by (simp add: ascii_def)
  from a show "getMimeTypeFromExtension toLowerCase (js (stem @ ''.'' @ e)) =
      getMimeTypeFromExtension2 toLowerCase (js (stem @ ''.'' @ e))
        \<longleftrightarrow> asciiLowerCase e \<in> set agreeing_extensions"
    unfolding getMimeTypeFromExtension_ascii [OF assms n]
      getMimeTypeFromExtension2_ascii [OF assms n]
    by (intro results_dotted_name) simp
next
  assume a: "ascii f \<and> CHR ''.'' \<notin> set f"
  then have n: "ascii f" ..
  from a show "getMimeTypeFromExtension toLowerCase (js f) =
      getMimeTypeFromExtension2 toLowerCase (js f)
        \<longleftrightarrow> asciiLowerCase f = ''constructor'' \<or> asciiLowerCase f = ''__proto__''"
    unfolding getMimeTypeFromExtension_ascii [OF assms n]
      getMimeTypeFromExtension2_ascii [OF assms n]
    by (intro results_undotted_name) simp
next
  assume "toLowerCase (304 # js ''stanbul.md'') = 105 # 775 # js ''stanbul.md''"
  then show "getMimeTypeFromExtension toLowerCase (304 # js ''stanbul.md'') =
      Str ''application/octet-stream''"
    by (rule istanbul_first)
next
  assume "toLowerCase (304 # js ''stanbul.md'') = 105 # 775 # js ''stanbul.md''"
  then show "getMimeTypeFromExtension2 toLowerCase (304 # js ''stanbul.md'') =
      Str ''text/markdown''"
    by (rule istanbul_second)
qed

theorem mime_definitions_agree_on_witness:
  "(\<forall>s. toLowerCase_sample (js s) = js (asciiLowerCase s)) \<and>
   ascii ''README'' \<and> ascii ''MD'' \<and> CHR ''.'' \<notin> set ''MD'' \<and>
   asciiLowerCase ''MD'' \<in> set agreeing_extensions \<and>
   getMimeTypeFromExtension toLowerCase_sample (js (''README'' @ ''.'' @ ''MD'')) =
     getMimeTypeFromExtension2 toLowerCase_sample (js (''README'' @ ''.'' @ ''MD'')) \<and>
   ascii ''constructor'' \<and> CHR ''.'' \<notin> set ''constructor'' \<and>
   asciiLowerCase ''constructor'' = ''constructor'' \<and>
   getMimeTypeFromExtension toLowerCase_sample (js ''constructor'') =
     getMimeTypeFromExtension2 toLowerCase_sample (js ''constructor'') \<and>
   toLowerCase_sample (304 # js ''stanbul.md'') = 105 # 775 # js ''stanbul.md'' \<and>
   getMimeTypeFromExtension toLowerCase_sample (304 # js ''stanbul.md'') =
     Str ''application/octet-stream'' \<and>
   getMimeTypeFromExtension2 toLowerCase_sample (304 # js ''stanbul.md'') =
     Str ''text/markdown''"
proof -
  have h: "\<forall>s. ascii s \<longrightarrow> toLowerCase_sample (js s) = js (asciiLowerCase s)"
    by (simp add: toLowerCase_sample_js)
  have e: "ascii ''README'' \<and> ascii ''MD'' \<and> CHR ''.'' \<notin> set ''MD''"
    and f: "ascii ''constructor'' \<and> CHR ''.'' \<notin> set ''constructor''"
    by (simp_all add: ascii_def)
  have a: "asciiLowerCase ''MD'' \<in> set agreeing_extensions" by code_simp
  have c: "asciiLowerCase ''constructor'' = ''constructor''" by code_simp
  have i: "toLowerCase_sample (304 # js ''stanbul.md'') = 105 # 775 # js ''stanbul.md''"
    using toLowerCase_sample_js [of "''stanbul.md''"]
    by (simp add: toLowerCase_sample_def asciiLowerCase_def asciiLowerCase_char_def)
  from mime_definitions_agree_on [OF h, of "''README''" "''MD''" "''constructor''"] e f a c i
  have "getMimeTypeFromExtension toLowerCase_sample (js (''README'' @ ''.'' @ ''MD'')) =
          getMimeTypeFromExtension2 toLowerCase_sample (js (''README'' @ ''.'' @ ''MD''))"
    and "getMimeTypeFromExtension toLowerCase_sample (js ''constructor'') =
          getMimeTypeFromExtension2 toLowerCase_sample (js ''constructor'')"
    and "getMimeTypeFromExtension toLowerCase_sample (304 # js ''stanbul.md'') =
          Str ''application/octet-stream''"
    and "getMimeTypeFromExtension2 toLowerCase_sample (304 # js ''stanbul.md'') =
          Str ''text/markdown''"
    by blast+
  with e f a c i toLowerCase_sample_js show ?thesis by blast
qed

text \<open>
  The claim as stated fails on an extension in both maps (\<open>js\<close>), on one in the second
  map only (\<open>png\<close>) and on a name with no extension.
\<close>

theorem mime_definitions_differ_counterexample:
  "getMimeTypeFromExtension toLowerCase_sample (js ''main.js'') = Str ''text/javascript'' \<and>
   getMimeTypeFromExtension2 toLowerCase_sample (js ''main.js'') = Str ''application/javascript'' \<and>
   getMimeTypeFromExtension toLowerCase_sample (js ''logo.png'') = Str ''application/octet-stream'' \<and>
   getMimeTypeFromExtension2 toLowerCase_sample (js ''logo.png'') = Str ''image/png'' \<and>
   getMimeTypeFromExtension toLowerCase_sample (js ''Makefile'') = Str ''application/octet-stream'' \<and>
   getMimeTypeFromExtension2 toLowerCase_sample (js ''Makefile'') = Null"
proof -
  have h: "\<forall>s. ascii s \<longrightarrow> toLowerCase_sample (js s) = js (asciiLowerCase s)"
    by (simp add: toLowerCase_sample_js)
  have n: "ascii ''main.js''" "ascii ''logo.png''" "ascii ''Makefile''"
    by (simp_all add: ascii_def)
  have "first_result (substring (asciiLowerCase ''main.js'') (lastIndexOf (CHR ''.'') ''main.js'')) =
          Str ''text/javascript''"
    and "(case pop (split (CHR ''.'') (asciiLowerCase ''main.js'')) of
            None \<Rightarrow> Null | Some ext \<Rightarrow> second_result ext) = Str ''application/javascript''"
    and "first_result (substring (asciiLowerCase ''logo.png'') (lastIndexOf (CHR ''.'') ''logo.png'')) =
          Str ''application/octet-stream''"
    and "(case pop (split (CHR ''.'') (asciiLowerCase ''logo.png'')) of
            None \<Rightarrow> Null | Some ext \<Rightarrow> second_result ext) = Str ''image/png''"
    and "first_result (substring (asciiLowerCase ''Makefile'') (lastIndexOf (CHR ''.'') ''Makefile'')) =
          Str ''application/octet-stream''"
    and "(case pop (split (CHR ''.'') (asciiLowerCase ''Makefile'')) of
            None \<Rightarrow> Null | Some ext \<Rightarrow> second_result ext) = Null"
    by code_simp+
  then show ?thesis
    by (simp only: getMimeTypeFromExtension_ascii [OF h] getMimeTypeFromExtension2_ascii [OF h] n)
qed

section \<open>The heartbeat of an event stream (\<open>createSSEStream\<close>)\<close>

text \<open>
  The stream helper of the pipeline:
  \<^verbatim>\<open>
  function createSSEStream(controller) {
    let heartbeatInterval = null;
    const send = (event, data) => {
      try { controller.enqueue(encoder.encode(`event: ${event}\ndata: ${JSON.stringify(data)}\n\n`)); }
      catch (error) { console.error('SSE send failed:', error); }
    };
    const startHeartbeat = () => {
      heartbeatInterval = setInterval(() => {
        send('heartbeat', { timestamp: Date.now() });
      }, 15000);
    };
    const cleanup = () => {
      if (heartbeatInterval) { clearInterval(heartbeatInterval); heartbeatInterval = null; }
    };
    return { send, startHeartbeat, cleanup };
  }
  \<close>
  Time is a clock in milliseconds that advances one tick at a time. The state holds the
  closure variable \<open>heartbeatInterval\<close>, the clock, the intervals that \<open>setInterval\<close>
  has registered and \<open>clearInterval\<close> has not cleared (each with its id and the time it
  is next due; all of them have the heartbeat callback and the period 15000, the only
  \<open>setInterval\<close> of this code), whether the controller is open, and the messages
  enqueued so far, each as its event name and its data. Interval ids start at 1, as in
  the runtime, so a handle is truthy. \<open>enqueue\<close> on a closed controller throws, and
  \<open>send\<close> swallows the error: nothing is enqueued.
\<close>

datatype Data = Timestamp nat | Payload string

record SSE =
  heartbeatInterval :: "nat option"
  clock :: nat
  nextTimerId :: nat
  timers :: "(nat \<times> nat) list"
  controllerOpen :: bool
  enqueued :: "(string \<times> Data) list"

definition createSSEStream :: "nat \<Rightarrow> SSE" where
  "createSSEStream t0 =
     \<lparr>heartbeatInterval = None, clock = t0, nextTimerId = 1, timers = [],
      controllerOpen = True, enqueued = []\<rparr>"

definition send :: "string \<Rightarrow> Data \<Rightarrow> SSE \<Rightarrow> SSE" where
  "send event payload st =
     (if controllerOpen st then st\<lparr>enqueued := enqueued st @ [(event, payload)]\<rparr> else st)"

definition startHeartbeat :: "SSE \<Rightarrow> SSE" where
  "startHeartbeat st =
     st\<lparr>heartbeatInterval := Some (nextTimerId st),
        timers := timers st @ [(nextTimerId st, clock st + 15000)],
        nextTimerId := nextTimerId st + 1\<rparr>"

definition cleanup :: "SSE \<Rightarrow> SSE" where
  "cleanup st =
     (case heartbeatInterval st of
        None \<Rightarrow> st
      | Some timer \<Rightarrow>
          if timer \<noteq> 0 then
            st\<lparr>timers := filter (\<lambda>t. fst t \<noteq> timer) (timers st), heartbeatInterval := None\<rparr>
          else st)"

definition close :: "SSE \<Rightarrow> SSE" where
  "close st = st\<lparr>controllerOpen := False\<rparr>"

text \<open>
  One millisecond passes: the clock advances, and every interval due at the new time
  runs its callback, which sends a heartbeat stamped with that time, and is due again
  15000 ms later.
\<close>

definition tick :: "SSE \<Rightarrow> SSE" where
  "tick st =
     (let time = clock st + 1
      in fold (\<lambda>t s. if snd t = time then send ''heartbeat'' (Timestamp time) s else s)
           (timers st)
           (st\<lparr>clock := time,
               timers := map (\<lambda>t. if snd t = time then (fst t, snd t + 15000) else t)
                           (timers st)\<rparr>))"

fun elapse :: "nat \<Rightarrow> SSE \<Rightarrow> SSE" where
  "elapse 0 st = st"
| "elapse (Suc n) st = elapse n (tick st)"

text \<open>
  What happens to a stream, in order: the owner sends an event, time passes, the owner
  calls \<open>startHeartbeat\<close> or \<open>cleanup\<close>, or the controller is closed. An action is
  \<open>quiet\<close> when it is the passing of time or the sending of an event other than a
  heartbeat; \<open>waited\<close> is the time that a list of actions lets pass, and \<open>beats\<close> are
  the data of the heartbeats enqueued.
\<close>

datatype Action = Send string Data | Wait nat | StartHeartbeat | Cleanup | Close

fun step :: "Action \<Rightarrow> SSE \<Rightarrow> SSE" where
  "step (Send event payload) st = send event payload st"
| "step (Wait n) st = elapse n st"
| "step StartHeartbeat st = startHeartbeat st"
| "step Cleanup st = cleanup st"
| "step Close st = close st"

fun run :: "Action list \<Rightarrow> SSE \<Rightarrow> SSE" where
  "run [] st = st"
| "run (a # as) st = run as (step a st)"

definition beats :: "SSE \<Rightarrow> Data list" where
  "beats st = map snd (filter (\<lambda>m. fst m = ''heartbeat'') (enqueued st))"

fun quiet :: "Action \<Rightarrow> bool" where
  "quiet (Send event payload) = (event \<noteq> ''heartbeat'')"
| "quiet (Wait n) = True"
| "quiet a = False"

fun waited :: "Action list \<Rightarrow> nat" where
  "waited [] = 0"
| "waited (Wait n # as) = n + waited as"
| "waited (a # as) = waited as"

text \<open>
  The invariant of a stream with one running interval, \<open>t\<close> ms after it was started at
  time \<open>t0\<close> on a stream that had enqueued the heartbeats \<open>earlier\<close> before.
\<close>

definition beating :: "nat \<Rightarrow> nat \<Rightarrow> Data list \<Rightarrow> nat \<Rightarrow> SSE \<Rightarrow> bool" where
  "beating t0 timer earlier t st \<longleftrightarrow>
     clock st = t0 + t \<and>
     timers st = [(timer, t0 + 15000 * (t div 15000 + 1))] \<and>
     controllerOpen st \<and>
     beats st = earlier @ map (\<lambda>k. Timestamp (t0 + 15000 * (k + 1))) [0 ..< t div 15000]"

lemma beating_start:
  "controllerOpen st \<Longrightarrow> timers st = [] \<Longrightarrow>
   beating (clock st) (nextTimerId st) (beats st) 0 (startHeartbeat st)"
  by (simp add: beating_def startHeartbeat_def beats_def)

lemma beating_send:
  "event \<noteq> ''heartbeat'' \<Longrightarrow> beating t0 timer earlier t st \<Longrightarrow> beating t0 timer earlier t (send event payload st)"
  by (simp add: beating_def send_def beats_def)

lemma beating_tick:
  assumes "beating t0 timer earlier t st"
  shows "beating t0 timer earlier (Suc t) (tick st)"
proof (cases "Suc t mod 15000 = 0")
  case True
  then have d: "Suc t div 15000 = Suc (t div 15000)" by (simp add: div_Suc)
  from True have "Suc t = 15000 * (Suc t div 15000)" by (metis mult_div_mod_eq add.right_neutral)
  with d have due: "t0 + 15000 * (t div 15000 + 1) = t0 + t + 1" by simp
  with assms d show ?thesis
    by (simp add: beating_def tick_def send_def beats_def Let_def)
next
  case False
  then have d: "Suc t div 15000 = t div 15000" by (simp add: div_Suc)
  have "Suc t \<noteq> 15000 * (t div 15000 + 1)"
  proof
    assume "Suc t = 15000 * (t div 15000 + 1)"
    then have "Suc t mod 15000 = 0" by (metis mod_mult_self1_is_0)
    with False show False ..
  qed
  then have "t0 + 15000 * (t div 15000 + 1) \<noteq> t0 + t + 1" by simp
  with assms d show ?thesis
    by (simp add: beating_def tick_def send_def beats_def Let_def)
qed

lemma beating_elapse: "beating t0 timer earlier t st \<Longrightarrow> beating t0 timer earlier (t + n) (elapse n st)"
proof (induction n arbitrary: t st)
  case 0
  then show ?case by simp
next
  case (Suc n)
  from Suc.IH [OF beating_tick [OF Suc.prems]] show ?case by simp
qed

lemma beating_run:
  "list_all quiet acts \<Longrightarrow> beating t0 timer earlier t st \<Longrightarrow>
   beating t0 timer earlier (t + waited acts) (run acts st)"
proof (induction acts arbitrary: t st)
  case Nil
  then show ?case by simp
next
  case (Cons a acts)
  show ?case
  proof (cases a)
    case (Send event payload)
    with Cons.prems have "beating t0 timer earlier t (step a st)" by (simp add: beating_send)
    from Cons.IH [OF _ this] Cons.prems(1) Send show ?thesis by simp
  next
    case (Wait n)
    with Cons.prems have "beating t0 timer earlier (t + n) (step a st)" by (simp add: beating_elapse)
    from Cons.IH [OF _ this] Cons.prems(1) Wait show ?thesis by (simp add: add.assoc)
  qed (use Cons.prems in simp_all)
qed

lemma fold_handle:
  "heartbeatInterval (fold (\<lambda>t s. if snd t = due then send event payload s else s) ts s) =
     heartbeatInterval s"
  by (induction ts arbitrary: s) (simp_all add: send_def)

lemma tick_handle: "heartbeatInterval (tick st) = heartbeatInterval st"
  by (simp add: tick_def Let_def fold_handle)

lemma elapse_handle: "heartbeatInterval (elapse n st) = heartbeatInterval st"
  by (induction n arbitrary: st) (simp_all add: tick_handle)

lemma run_handle: "list_all quiet acts \<Longrightarrow> heartbeatInterval (run acts st) = heartbeatInterval st"
proof (induction acts arbitrary: st)
  case Nil
  then show ?case by simp
next
  case (Cons a acts)
  have "heartbeatInterval (step a st) = heartbeatInterval st"
  proof (cases a)
    case (Send event payload)
    then show ?thesis by (simp add: send_def)
  next
    case (Wait n)
    then show ?thesis by (simp add: elapse_handle)
  qed (use Cons.prems in simp_all)
  with Cons.IH [of "step a st"] Cons.prems show ?case by simp
qed

lemma fold_nextTimerId:
  "nextTimerId (fold (\<lambda>t s. if snd t = due then send event payload s else s) ts s) =
     nextTimerId s"
  by (induction ts arbitrary: s) (simp_all add: send_def)

lemma elapse_nextTimerId: "nextTimerId (elapse n st) = nextTimerId st"
  by (induction n arbitrary: st) (simp_all add: tick_def Let_def fold_nextTimerId)

lemma run_nextTimerId: "list_all quiet acts \<Longrightarrow> nextTimerId (run acts st) = nextTimerId st"
proof (induction acts arbitrary: st)
  case Nil
  then show ?case by simp
next
  case (Cons a acts)
  have "nextTimerId (step a st) = nextTimerId st"
  proof (cases a)
    case (Send event payload)
    then show ?thesis by (simp add: send_def)
  next
    case (Wait n)
    then show ?thesis by (simp add: elapse_nextTimerId)
  qed (use Cons.prems in simp_all)
  with Cons.IH [of "step a st"] Cons.prems show ?case by simp
qed

lemma tick_no_timers: "timers st = [] \<Longrightarrow> tick st = st\<lparr>clock := clock st + 1\<rparr>"
  by (simp add: tick_def Let_def)

lemma elapse_no_timers:
  "timers st = [] \<Longrightarrow> elapse n st = st\<lparr>clock := clock st + n\<rparr>"
  by (induction n arbitrary: st) (simp_all add: tick_no_timers)

lemma run_no_timers:
  "list_all quiet acts \<Longrightarrow> timers st = [] \<Longrightarrow>
   timers (run acts st) = [] \<and> beats (run acts st) = beats st"
proof (induction acts arbitrary: st)
  case Nil
  then show ?case by simp
next
  case (Cons a acts)
  have "timers (step a st) = [] \<and> beats (step a st) = beats st"
  proof (cases a)
    case (Send event payload)
    with Cons.prems show ?thesis by (simp add: send_def beats_def)
  next
    case (Wait n)
    with Cons.prems show ?thesis by (simp add: elapse_no_timers beats_def)
  qed (use Cons.prems in simp_all)
  with Cons.IH [of "step a st"] Cons.prems(1) show ?case by simp
qed

lemma fold_closed:
  "\<not> controllerOpen s \<Longrightarrow>
   fold (\<lambda>t s. if snd t = due then send event payload s else s) ts s = s"
  by (induction ts) (simp_all add: send_def)

lemma tick_closed:
  "\<not> controllerOpen st \<Longrightarrow>
   \<not> controllerOpen (tick st) \<and> enqueued (tick st) = enqueued st"
  by (simp add: tick_def Let_def fold_closed)

lemma elapse_closed:
  "\<not> controllerOpen st \<Longrightarrow>
   \<not> controllerOpen (elapse n st) \<and> enqueued (elapse n st) = enqueued st"
proof (induction n arbitrary: st)
  case 0
  then show ?case by simp
next
  case (Suc n)
  from tick_closed [OF Suc.prems] Suc.IH [of "tick st"] show ?case by simp
qed

lemma run_closed:
  "list_all quiet acts \<Longrightarrow> \<not> controllerOpen st \<Longrightarrow>
   \<not> controllerOpen (run acts st) \<and> enqueued (run acts st) = enqueued st"
proof (induction acts arbitrary: st)
  case Nil
  then show ?case by simp
next
  case (Cons a acts)
  have "\<not> controllerOpen (step a st) \<and> enqueued (step a st) = enqueued st"
  proof (cases a)
    case (Send event payload)
    with Cons.prems show ?thesis by (simp add: send_def)
  next
    case (Wait n)
    with Cons.prems show ?thesis by (simp add: elapse_closed)
  qed (use Cons.prems in simp_all)
  with Cons.IH [of "step a st"] Cons.prems(1) show ?case by simp
qed

lemma startHeartbeat_handle:
  "heartbeatInterval (startHeartbeat st) = Some (nextTimerId st)"
  by (simp add: startHeartbeat_def)

text \<open>
  Claim C7. Take any stream whose controller is open and on which no interval is
  running, such as a new one (timer ids are positive, as the runtime gives them), and
  let its owner call \<open>startHeartbeat\<close> at time \<open>t0\<close>.
  From then on a heartbeat is enqueued every 15000 ms, whatever other events are sent in
  between: after \<open>t\<close> ms the heartbeats added are those stamped \<open>t0 + 15000\<close>,
  \<open>t0 + 30000\<close> and so on up to \<open>t0 + t\<close>, so at least three of them once 45000 ms
  have passed. After \<open>cleanup\<close>, and after the controller is closed, no further heartbeat
  is enqueued, however long the time that passes and whatever else is sent.
\<close>

theorem heartbeat_every_15s:
  assumes "controllerOpen st" and "timers st = []" and "nextTimerId st \<noteq> 0"
    and "list_all quiet before" and "list_all quiet after"
  shows "beats (run before (startHeartbeat st)) =
           beats st @
           map (\<lambda>k. Timestamp (clock st + 15000 * (k + 1))) [0 ..< waited before div 15000] \<and>
         (45000 \<le> waited before \<longrightarrow>
            length (beats st) + 3 \<le> length (beats (run before (startHeartbeat st)))) \<and>
         beats (run after (cleanup (run before (startHeartbeat st)))) =
           beats (run before (startHeartbeat st)) \<and>
         beats (run after (close (run before (startHeartbeat st)))) =
           beats (run before (startHeartbeat st))"
proof -
  let ?st = "run before (startHeartbeat st)"
  have b: "beating (clock st) (nextTimerId st) (beats st) (waited before) ?st"
    using beating_run [OF assms(4) beating_start [OF assms(1,2)]] by simp
  then have one: "beats ?st = beats st @
      map (\<lambda>k. Timestamp (clock st + 15000 * (k + 1))) [0 ..< waited before div 15000]"
    by (simp add: beating_def)
  have two: "length (beats st) + 3 \<le> length (beats ?st)" if "45000 \<le> waited before"
  proof -
    from that have "45000 div 15000 \<le> waited before div (15000::nat)" by (rule div_le_mono)
    with one show ?thesis by simp
  qed
  have "heartbeatInterval ?st = Some (nextTimerId st)"
    using run_handle [OF assms(4), of "startHeartbeat st"] by (simp add: startHeartbeat_handle)
  with b assms(3) have "timers (cleanup ?st) = []" and "beats (cleanup ?st) = beats ?st"
    by (simp_all add: beating_def cleanup_def beats_def)
  with run_no_timers [OF assms(5), of "cleanup ?st"]
  have three: "beats (run after (cleanup ?st)) = beats ?st" by simp
  have "\<not> controllerOpen (close ?st)" and "enqueued (close ?st) = enqueued ?st"
    by (simp_all add: close_def)
  with run_closed [OF assms(5), of "close ?st"]
  have four: "beats (run after (close ?st)) = beats ?st" by (simp add: beats_def)
  from one two three four show ?thesis by blast
qed

theorem heartbeat_every_15s_witness:
  "controllerOpen (createSSEStream 1000) \<and> timers (createSSEStream 1000) = [] \<and>
   nextTimerId (createSSEStream 1000) \<noteq> 0 \<and>
   list_all quiet [Wait 20000, Send ''status'' (Payload ''generating''), Wait 25000] \<and>
   list_all quiet [Wait 60000] \<and>
   beats (run [Wait 20000, Send ''status'' (Payload ''generating''), Wait 25000]
            (startHeartbeat (createSSEStream 1000))) =
     [Timestamp 16000, Timestamp 31000, Timestamp 46000] \<and>
   beats (run [Wait 60000]
            (cleanup (run [Wait 20000, Send ''status'' (Payload ''generating''), Wait 25000]
                        (startHeartbeat (createSSEStream 1000))))) =
     [Timestamp 16000, Timestamp 31000, Timestamp 46000] \<and>
   beats (run [Wait 60000]
            (close (run [Wait 20000, Send ''status'' (Payload ''generating''), Wait 25000]
                      (startHeartbeat (createSSEStream 1000))))) =
     [Timestamp 16000, Timestamp 31000, Timestamp 46000]"
proof -
  have s: "controllerOpen (createSSEStream 1000)" "timers (createSSEStream 1000) = []"
    "nextTimerId (createSSEStream 1000) \<noteq> 0" "beats (createSSEStream 1000) = []"
    "clock (createSSEStream 1000) = 1000"
    by (simp_all add: createSSEStream_def beats_def)
  have q: "list_all quiet [Wait 20000, Send ''status'' (Payload ''generating''), Wait 25000]"
    "list_all quiet [Wait 60000]" by simp_all
  have u: "[0 ..< (3::nat)] = [0, 1, 2]" by (simp add: upt_rec)
  from heartbeat_every_15s [OF s(1,2,3) q] u q s show ?thesis by simp
qed

text \<open>
  The theorem also covers a heartbeat that is started again after \<open>cleanup\<close>: the
  stream is then open, with no interval running and a fresh timer id.
\<close>

lemma restartable:
  assumes "controllerOpen st" and "timers st = []" and "nextTimerId st \<noteq> 0"
    and "list_all quiet before"
  shows "controllerOpen (cleanup (run before (startHeartbeat st))) \<and>
         timers (cleanup (run before (startHeartbeat st))) = [] \<and>
         nextTimerId (cleanup (run before (startHeartbeat st))) \<noteq> 0"
proof -
  let ?st = "run before (startHeartbeat st)"
  have b: "beating (clock st) (nextTimerId st) (beats st) (waited before) ?st"
    using beating_run [OF assms(4) beating_start [OF assms(1,2)]] by simp
  have h: "heartbeatInterval ?st = Some (nextTimerId st)"
    using run_handle [OF assms(4), of "startHeartbeat st"] by (simp add: startHeartbeat_handle)
  have n: "nextTimerId ?st = nextTimerId st + 1"
    using run_nextTimerId [OF assms(4), of "startHeartbeat st"] by (simp add: startHeartbeat_def)
  from b h n assms(3) show ?thesis by (simp add: beating_def cleanup_def)
qed

text \<open>
  A stream on which no interval runs enqueues no heartbeat, however long it stays open.
\<close>

lemma unstarted_is_silent:
  "list_all quiet acts \<Longrightarrow> timers st = [] \<Longrightarrow> beats (run acts st) = beats st"
  by (simp add: run_no_timers)

text \<open>
  The theorem asks that no interval is running when \<open>startHeartbeat\<close> is called:
  \<open>startHeartbeat\<close> does not look at the handle it overwrites. Called a second time while
  the first interval runs, it leaves that interval running with no handle to it, and
  \<open>cleanup\<close> clears the second one only.
\<close>

lemma startHeartbeat_twice_leaks:
  assumes "list_all quiet acts"
  shows "beats (run acts (cleanup (startHeartbeat (startHeartbeat (createSSEStream t0))))) =
           map (\<lambda>k. Timestamp (t0 + 15000 * (k + 1))) [0 ..< waited acts div 15000]"
proof -
  have "beating t0 1 [] 0 (cleanup (startHeartbeat (startHeartbeat (createSSEStream t0))))"
    by (simp add: beating_def cleanup_def startHeartbeat_def createSSEStream_def beats_def)
  from beating_run [OF assms this] show ?thesis by (simp add: beating_def)
qed

end
